theory Spec2Isabelle
  imports Complex_Main "HOL-Library.Sublist"
begin

section \<open>ClawBeam: shared vocabulary\<close>

text \<open>
  The repository holds two implementations of the classifier, the tailer and the timed
  state machine: the modules \<^verbatim>\<open>parser.py\<close>, \<^verbatim>\<open>session_watcher.py\<close> and
  \<^verbatim>\<open>state_machine.py\<close> next to \<^verbatim>\<open>config.py\<close>, and the modules of the same names in
  the package directory \<^verbatim>\<open>clawbeam/\<close>. Both are embedded. The first keeps the source's
  names; the definitions taken from \<^verbatim>\<open>clawbeam/\<close> carry the prefix \<open>cb_\<close>.
  A leading underscore of a Python name is dropped (\<open>_try_transition\<close> is
  \<open>try_transition\<close>).

  Instants of \<^verbatim>\<open>time.monotonic()\<close> and durations are real numbers. Every function that
  reads the clock takes the reading as its argument \<open>now\<close>.
\<close>

datatype LampState =
  IDLE | USER_INPUT | THINKING | TOOL_CALL | TOOL_SUCCESS | TOOL_ERROR
  | NETWORK_ERROR | HIGH_TOKENS

datatype EventType =
  EV_USER_INPUT | EV_ASSISTANT | EV_TOOL_CALL | EV_TOOL_RESULT_SUCCESS
  | EV_TOOL_RESULT_ERROR | EV_UNKNOWN

text \<open>
  Exceptions, by class. \<open>CancelledError\<close> and \<open>KeyboardInterrupt\<close> derive from
  \<^verbatim>\<open>BaseException\<close> only, so \<^verbatim>\<open>except Exception\<close> does not catch them.
\<close>

datatype pyexn =
  JSONDecodeError | AttributeError | TypeError | ValueError | RecursionError
  | UnicodeDecodeError | HTTPError | OSError | RuntimeError | CancelledError
  | KeyboardInterrupt

fun is_Exception :: "pyexn \<Rightarrow> bool" where
  "is_Exception CancelledError = False"
| "is_Exception KeyboardInterrupt = False"
| "is_Exception _ = True"

text \<open>
  The transition observer is a callback of the caller. It is modelled by what the machine
  sees of one call: \<open>None\<close> when the call returns, \<open>Some e\<close> when it raises \<open>e\<close>. An
  observer that calls back into the machine while it runs is outside the model. Each call
  of an entry point is one step: the interleaving of coroutines is not modelled.
\<close>

type_synonym observer = "LampState \<Rightarrow> LampState \<Rightarrow> pyexn option"

text \<open>
  What one call of an entry point did: the machine it leaves, the observer calls it made
  (in order), the messages it logged with \<^verbatim>\<open>logger.exception\<close>, and the exception that
  left the entry point, if any.
\<close>

record 'm outcome =
  machine :: 'm
  notified :: "(LampState \<times> LampState) list"
  logged :: "string list"
  raised :: "pyexn option"

definition quiet :: "'m \<Rightarrow> 'm outcome" where
  "quiet m = \<lparr>machine = m, notified = [], logged = [], raised = None\<rparr>"

record StateMachineConfig =
  min_state_duration :: real
  idle_timeout :: real
  debounce_window :: real

section \<open>The state machine of \<^verbatim>\<open>state_machine.py\<close>\<close>

text \<open>
  The event as the state machine reads it: \<open>event_type\<close> and \<open>token_count\<close>
  (\<^verbatim>\<open>Optional[int]\<close>).
\<close>

record Event_view =
  event_type :: EventType
  token_count :: "int option"

definition EVENT_TO_STATE :: "EventType \<Rightarrow> LampState option" where
  "EVENT_TO_STATE k =
     (case k of
        EV_USER_INPUT \<Rightarrow> Some USER_INPUT
      | EV_ASSISTANT \<Rightarrow> Some THINKING
      | EV_TOOL_CALL \<Rightarrow> Some TOOL_CALL
      | EV_TOOL_RESULT_SUCCESS \<Rightarrow> Some TOOL_SUCCESS
      | EV_TOOL_RESULT_ERROR \<Rightarrow> Some TOOL_ERROR
      | EV_UNKNOWN \<Rightarrow> None)"

definition HIGH_TOKEN_THRESHOLD :: int where
  "HIGH_TOKEN_THRESHOLD = 4000"

text \<open>
  \<open>last_transition_key\<close> is the string \<^verbatim>\<open>f"{old}->{target}"\<close> of the last committed
  transition, \<open>None\<close> before the first one. The string determines the pair of states, so
  the pair stands for it. \<open>idle_task\<close> is the instant at which the pending idle
  watcher was started.
\<close>

record StateMachine =
  cfg :: StateMachineConfig
  on_transition :: "observer option"
  state :: LampState
  state_entered_at :: real
  last_activity :: real
  last_transition_key :: "(LampState \<times> LampState) option"
  last_transition_time :: real
  idle_task :: "real option"

definition init_StateMachine :: "StateMachineConfig \<Rightarrow> observer option \<Rightarrow> real \<Rightarrow> StateMachine" where
  "init_StateMachine config cb now =
     \<lparr>cfg = config, on_transition = cb, state = IDLE, state_entered_at = now,
      last_activity = now, last_transition_key = None, last_transition_time = 0,
      idle_task = None\<rparr>"

text \<open>The assignments of a committed transition, before the observer is called.\<close>

definition commit :: "LampState \<Rightarrow> real \<Rightarrow> StateMachine \<Rightarrow> StateMachine" where
  "commit target now sm =
     sm\<lparr>state := target, state_entered_at := now,
        last_transition_key := Some (state sm, target), last_transition_time := now\<rparr>"

definition try_transition :: "LampState \<Rightarrow> real \<Rightarrow> StateMachine \<Rightarrow> StateMachine outcome" where
  "try_transition target now sm =
     (if now - state_entered_at sm < min_state_duration (cfg sm) then quiet sm
      else if Some (state sm, target) = last_transition_key sm
              \<and> now - last_transition_time sm < debounce_window (cfg sm) then quiet sm
      else if target = state sm then quiet sm
      else
        (let old = state sm; sm' = commit target now sm in
         case on_transition sm of
           None \<Rightarrow> quiet sm'
         | Some cb \<Rightarrow>
             (case cb old target of
                None \<Rightarrow> (quiet sm')\<lparr>notified := [(old, target)]\<rparr>
              | Some e \<Rightarrow>
                  if is_Exception e
                  then (quiet sm')\<lparr>notified := [(old, target)],
                                   logged := [''on_transition callback failed'']\<rparr>
                  else (quiet sm')\<lparr>notified := [(old, target)], raised := Some e\<rparr>)))"

definition restart_idle_timer :: "real \<Rightarrow> StateMachine \<Rightarrow> StateMachine" where
  "restart_idle_timer now sm = sm\<lparr>idle_task := Some now\<rparr>"

definition handle_event :: "Event_view \<Rightarrow> real \<Rightarrow> StateMachine \<Rightarrow> StateMachine outcome" where
  "handle_event event now sm =
     (let sm1 = restart_idle_timer now (sm\<lparr>last_activity := now\<rparr>);
          target = EVENT_TO_STATE (event_type event);
          target =
            (case token_count event of
               None \<Rightarrow> target
             | Some n \<Rightarrow> if n \<noteq> 0 \<and> n \<ge> HIGH_TOKEN_THRESHOLD then Some HIGH_TOKENS else target)
      in case target of
           None \<Rightarrow> quiet sm1
         | Some t \<Rightarrow> try_transition t now sm1)"

definition set_network_error :: "real \<Rightarrow> StateMachine \<Rightarrow> StateMachine outcome" where
  "set_network_error now sm = try_transition NETWORK_ERROR now sm"

definition clear_network_error :: "real \<Rightarrow> StateMachine \<Rightarrow> StateMachine outcome" where
  "clear_network_error now sm =
     (if state sm = NETWORK_ERROR then try_transition IDLE now sm else quiet sm)"

text \<open>
  The idle watcher once its sleep is over. Its body stands in
  \<^verbatim>\<open>try ... except asyncio.CancelledError: pass\<close>: a \<open>CancelledError\<close> that leaves the
  transition is swallowed, any other exception leaves the watcher.
\<close>

definition idle_watcher :: "real \<Rightarrow> StateMachine \<Rightarrow> StateMachine outcome" where
  "idle_watcher now sm =
     (let out = (if now - last_activity sm \<ge> idle_timeout (cfg sm)
                 then try_transition IDLE now sm else quiet sm)
      in if raised out = Some CancelledError then out\<lparr>raised := None\<rparr> else out)"

definition stop :: "StateMachine \<Rightarrow> StateMachine" where
  "stop sm = sm\<lparr>idle_task := None\<rparr>"

section \<open>The state machine of \<^verbatim>\<open>clawbeam/state_machine.py\<close>\<close>

text \<open>
  \<open>cb_last_transition_times\<close> is the dictionary from a pair (old, new) to the instant
  at which that pair last fired. \<open>cb_idle_task\<close> is the pending idle watcher: the state
  it watches and the instant at which it was started.
\<close>

record cb_StateMachine =
  cb_cfg :: StateMachineConfig
  cb_on_transition :: "observer option"
  cb_state :: LampState
  cb_state_entered_at :: real
  cb_last_transition_times :: "(LampState \<times> LampState) \<rightharpoonup> real"
  cb_idle_task :: "(LampState \<times> real) option"

definition cb_init_StateMachine :: "StateMachineConfig \<Rightarrow> observer option \<Rightarrow> real \<Rightarrow> cb_StateMachine" where
  "cb_init_StateMachine config cb now =
     \<lparr>cb_cfg = config, cb_on_transition = cb, cb_state = IDLE, cb_state_entered_at = now,
      cb_last_transition_times = Map.empty, cb_idle_task = None\<rparr>"

text \<open>
  The assignments of a committed transition, before the observer is called: the state,
  the entry instant, the pair's firing instant, and the idle watcher (cancelled, and
  started again for a state other than \<open>IDLE\<close> when the timeout is set).
\<close>

definition cb_commit :: "LampState \<Rightarrow> real \<Rightarrow> cb_StateMachine \<Rightarrow> cb_StateMachine" where
  "cb_commit new now sm =
     sm\<lparr>cb_state := new, cb_state_entered_at := now,
        cb_last_transition_times := (cb_last_transition_times sm)((cb_state sm, new) \<mapsto> now),
        cb_idle_task :=
          (if new \<noteq> IDLE \<and> idle_timeout (cb_cfg sm) \<noteq> 0 then Some (new, now) else None)\<rparr>"

definition cb_do_transition :: "LampState \<Rightarrow> real \<Rightarrow> cb_StateMachine \<Rightarrow> cb_StateMachine outcome" where
  "cb_do_transition new now sm =
     (let old = cb_state sm in
      if old = new then quiet sm
      else if now - cb_state_entered_at sm < min_state_duration (cb_cfg sm) then quiet sm
      else if (case cb_last_transition_times sm (old, new) of
                 None \<Rightarrow> False
               | Some fired \<Rightarrow> now - fired < debounce_window (cb_cfg sm)) then quiet sm
      else
        (let sm' = cb_commit new now sm in
         case cb_on_transition sm of
           None \<Rightarrow> quiet sm'
         | Some cb \<Rightarrow>
             (case cb old new of
                None \<Rightarrow> (quiet sm')\<lparr>notified := [(old, new)]\<rparr>
              | Some e \<Rightarrow> (quiet sm')\<lparr>notified := [(old, new)], raised := Some e\<rparr>)))"

text \<open>
  \<^verbatim>\<open>mapping.get(event.event_type, LampState.IDLE)\<close>: the event kinds of the table, and
  \<open>IDLE\<close> for any other kind. The event's token count is not read.
\<close>

definition cb_mapping :: "EventType \<Rightarrow> LampState option" where
  "cb_mapping k =
     (case k of
        EV_USER_INPUT \<Rightarrow> Some USER_INPUT
      | EV_ASSISTANT \<Rightarrow> Some THINKING
      | EV_TOOL_CALL \<Rightarrow> Some TOOL_CALL
      | EV_TOOL_RESULT_SUCCESS \<Rightarrow> Some TOOL_SUCCESS
      | EV_TOOL_RESULT_ERROR \<Rightarrow> Some TOOL_ERROR
      | EV_UNKNOWN \<Rightarrow> None)"

definition cb_handle_event :: "Event_view \<Rightarrow> real \<Rightarrow> cb_StateMachine \<Rightarrow> cb_StateMachine outcome" where
  "cb_handle_event event now sm =
     (let new = (case cb_mapping (event_type event) of None \<Rightarrow> IDLE | Some s \<Rightarrow> s)
      in cb_do_transition new now sm)"

text \<open>
  The idle watcher of state \<open>watched_state\<close> once its sleep is over. Its body stands in
  \<^verbatim>\<open>try ... except asyncio.CancelledError: return\<close>.
\<close>

definition cb_idle_watcher :: "LampState \<Rightarrow> real \<Rightarrow> cb_StateMachine \<Rightarrow> cb_StateMachine outcome" where
  "cb_idle_watcher watched_state now sm =
     (let out = (if idle_timeout (cb_cfg sm) = 0 then quiet sm
                 else if cb_state sm = watched_state then cb_do_transition IDLE now sm
                 else quiet sm)
      in if raised out = Some CancelledError then out\<lparr>raised := None\<rparr> else out)"

definition cb_stop :: "cb_StateMachine \<Rightarrow> cb_StateMachine" where
  "cb_stop sm = sm\<lparr>cb_idle_task := None\<rparr>"

definition cb_set_network_error :: "real \<Rightarrow> cb_StateMachine \<Rightarrow> cb_StateMachine outcome" where
  "cb_set_network_error now sm = cb_do_transition NETWORK_ERROR now sm"

definition cb_clear_network_error :: "real \<Rightarrow> cb_StateMachine \<Rightarrow> cb_StateMachine outcome" where
  "cb_clear_network_error now sm = cb_do_transition IDLE now sm"

section \<open>Runs of the state machine of \<^verbatim>\<open>clawbeam/state_machine.py\<close>\<close>

text \<open>
  A run is a list of calls of the machine's entry points, each with the clock reading of
  the call; \<open>Idle_fired w\<close> is the idle watcher of state \<open>w\<close> waking up. The run
  returns the final machine and the observer calls of the whole run, in order. A call
  whose observer raises leaves the machine as it is after the commit, and the run goes on
  from there.
\<close>

datatype request = Handle Event_view | Set_network_error | Clear_network_error | Idle_fired LampState

fun cb_step :: "request \<Rightarrow> real \<Rightarrow> cb_StateMachine \<Rightarrow> cb_StateMachine outcome" where
  "cb_step (Handle event) now sm = cb_handle_event event now sm"
| "cb_step Set_network_error now sm = cb_set_network_error now sm"
| "cb_step Clear_network_error now sm = cb_clear_network_error now sm"
| "cb_step (Idle_fired w) now sm = cb_idle_watcher w now sm"

fun cb_run :: "(request \<times> real) list \<Rightarrow> cb_StateMachine \<Rightarrow> cb_StateMachine \<times> (LampState \<times> LampState) list" where
  "cb_run [] sm = (sm, [])"
| "cb_run ((r, now) # rs) sm =
     (let out = cb_step r now sm; (sm', ns) = cb_run rs (machine out)
      in (sm', notified out @ ns))"

section \<open>Runs of the state machine of \<^verbatim>\<open>state_machine.py\<close>\<close>

text \<open>
  The same calls on the machine of \<^verbatim>\<open>state_machine.py\<close>; its idle watcher does not name
  a state. \<open>run\<close> returns the machine after the calls.
\<close>

fun step :: "request \<Rightarrow> real \<Rightarrow> StateMachine \<Rightarrow> StateMachine outcome" where
  "step (Handle event) now sm = handle_event event now sm"
| "step Set_network_error now sm = set_network_error now sm"
| "step Clear_network_error now sm = clear_network_error now sm"
| "step (Idle_fired w) now sm = idle_watcher now sm"

fun run :: "(request \<times> real) list \<Rightarrow> StateMachine \<Rightarrow> StateMachine" where
  "run [] sm = sm"
| "run ((r, now) # rs) sm = run rs (machine (step r now sm))"

text \<open>
  The last key, when there is one, is the pair of the last commit: its target is the
  current state and differs from its source.
\<close>

definition last_key_inv :: "StateMachine \<Rightarrow> bool" where
  "last_key_inv sm = (\<forall>a b. last_transition_key sm = Some (a, b) \<longrightarrow> state sm = b \<and> a \<noteq> b)"

section \<open>Fixtures\<close>

text \<open>
  The configurations and observers of the test-suite: no minimum duration and no debounce
  window; a debounce window of five seconds; an observer that returns; an observer that
  raises.
\<close>

definition zero_cfg :: StateMachineConfig where
  "zero_cfg = \<lparr>min_state_duration = 0, idle_timeout = 30, debounce_window = 0\<rparr>"

definition debounce_cfg :: StateMachineConfig where
  "debounce_cfg = \<lparr>min_state_duration = 0, idle_timeout = 30, debounce_window = 5\<rparr>"

definition returns :: observer where
  "returns old new = None"

definition fails :: observer where
  "fails old new = Some RuntimeError"

definition ev :: "EventType \<Rightarrow> int option \<Rightarrow> Event_view" where
  "ev k n = \<lparr>event_type = k, token_count = n\<rparr>"

text \<open>An observer, if there is one, that raises only exceptions that derive from \<^verbatim>\<open>Exception\<close>.\<close>

definition only_Exceptions :: "observer option \<Rightarrow> bool" where
  "only_Exceptions cb = (case cb of None \<Rightarrow> True | Some f \<Rightarrow> \<forall>a b e. f a b = Some e \<longrightarrow> is_Exception e)"

text \<open>The machine of \<^verbatim>\<open>clawbeam/\<close> after a first \<open>IDLE\<close> to \<open>NETWORK_ERROR\<close> at instant 0.\<close>

definition cb_after_first :: cb_StateMachine where
  "cb_after_first = machine (cb_set_network_error 0 (cb_init_StateMachine debounce_cfg (Some returns) 0))"

section \<open>The actuator client of \<^verbatim>\<open>clawbeam/wled_client.py\<close>\<close>

text \<open>
  The device and the clock are the client's environment. For each attempt the environment
  gives the two clock readings of the rate limiter (on entry, and after its sleep) and
  what the HTTP request did: a response with its status code, or an exception.
\<close>

datatype reply = Response int | Raised pyexn

record attempt_env =
  t_enter :: real
  t_leave :: real
  reply :: reply

text \<open>
  What the client did, in order: a sleep of the rate limiter, a request sent, a back-off
  sleep.
\<close>

datatype 'p effect = Rate_wait real | POST string 'p | GET string | Backoff real

record WledClient =
  state_url :: string
  info_url :: string
  min_interval :: real
  last_request_time :: real
  healthy :: bool
  BACKOFF_BASE :: real

definition MAX_RETRIES :: nat where
  "MAX_RETRIES = 3"

text \<open>The result of a call: what it returned or raised, the client it leaves, what it did.\<close>

record 'p call =
  returned :: "pyexn + bool"
  client :: WledClient
  effects :: "'p effect list"

text \<open>The rate limiter returns the sleep it made, if any, and the client it leaves.\<close>

definition rate_limit :: "attempt_env \<Rightarrow> WledClient \<Rightarrow> real option \<times> WledClient" where
  "rate_limit env c =
     (let elapsed = t_enter env - last_request_time c
      in (if elapsed < min_interval c then Some (min_interval c - elapsed) else None,
          c\<lparr>last_request_time := t_leave env\<rparr>))"

definition waited :: "real option \<Rightarrow> 'p effect list" where
  "waited w = (case w of None \<Rightarrow> [] | Some d \<Rightarrow> [Rate_wait d])"

text \<open>
  The loop \<^verbatim>\<open>for attempt in range(1, MAX_RETRIES + 1)\<close> of \<open>_post\<close>, over the attempt
  numbers still to come. \<open>env attempt\<close> is the environment of that attempt.
\<close>

fun post_loop :: "nat list \<Rightarrow> (nat \<Rightarrow> attempt_env) \<Rightarrow> string \<Rightarrow> 'p \<Rightarrow> WledClient \<Rightarrow> 'p call" where
  "post_loop [] env url payload c =
     \<lparr>returned = Inr False, client = c\<lparr>healthy := False\<rparr>, effects = []\<rparr>"
| "post_loop (attempt # rest) env url payload c =
     (let (w, c1) = rate_limit (env attempt) c;
          sent = waited w @ [POST url payload];
          retry =
            (let slept = (if attempt < MAX_RETRIES
                          then [Backoff (BACKOFF_BASE c1 * 2 ^ (attempt - 1))] else []);
                 later = post_loop rest env url payload c1
             in later\<lparr>effects := sent @ slept @ effects later\<rparr>)
      in case reply (env attempt) of
           Response status_code \<Rightarrow>
             if status_code = 200
             then \<lparr>returned = Inr True, client = c1\<lparr>healthy := True\<rparr>, effects = sent\<rparr>
             else retry
         | Raised exc \<Rightarrow>
             if exc = HTTPError \<or> exc = OSError then retry
             else \<lparr>returned = Inl exc, client = c1, effects = sent\<rparr>)"

definition post :: "(nat \<Rightarrow> attempt_env) \<Rightarrow> string \<Rightarrow> 'p \<Rightarrow> WledClient \<Rightarrow> 'p call" where
  "post env url payload c = post_loop [1 ..< MAX_RETRIES + 1] env url payload c"

definition apply_state :: "(nat \<Rightarrow> attempt_env) \<Rightarrow> 'p \<Rightarrow> WledClient \<Rightarrow> 'p call" where
  "apply_state env payload c = post env (state_url c) payload c"

definition ping :: "attempt_env \<Rightarrow> WledClient \<Rightarrow> 'p call" where
  "ping env c =
     (let (w, c1) = rate_limit env c;
          sent = waited w @ [GET (info_url c1)]
      in case reply env of
           Response status_code \<Rightarrow>
             (let ok = (status_code = 200)
              in \<lparr>returned = Inr ok, client = c1\<lparr>healthy := ok\<rparr>, effects = sent\<rparr>)
         | Raised exc \<Rightarrow>
             if exc = HTTPError \<or> exc = OSError
             then \<lparr>returned = Inr False, client = c1\<lparr>healthy := False\<rparr>, effects = sent\<rparr>
             else \<lparr>returned = Inl exc, client = c1, effects = sent\<rparr>)"

text \<open>
  Reading a list of effects: the number of requests sent, and the requests and back-off
  sleeps in order (the effects without the sleeps of the rate limiter).
\<close>

fun requests :: "'p effect list \<Rightarrow> nat" where
  "requests [] = 0"
| "requests (POST u p # es) = Suc (requests es)"
| "requests (GET u # es) = Suc (requests es)"
| "requests (e # es) = requests es"

fun steps :: "'p effect list \<Rightarrow> 'p effect list" where
  "steps [] = []"
| "steps (Rate_wait d # es) = steps es"
| "steps (e # es) = e # steps es"

text \<open>An attempt fails when the status is not 200 or the transport raises.\<close>

definition failed :: "reply \<Rightarrow> bool" where
  "failed r = (case r of Response status_code \<Rightarrow> status_code \<noteq> 200
                        | Raised exc \<Rightarrow> exc = HTTPError \<or> exc = OSError)"

text \<open>
  The client and the transports of the test-suite: a transport that raises
  \<^verbatim>\<open>httpx.ConnectError\<close> (an \<^verbatim>\<open>httpx.HTTPError\<close>) for the first \<open>fail_count\<close> requests and
  then answers with \<open>status\<close>.
\<close>

definition test_client :: WledClient where
  "test_client =
     \<lparr>state_url = ''http://10.0.0.1:80/json/state'', info_url = ''http://10.0.0.1:80/json/info'',
      min_interval = 1 / 5, last_request_time = 0, healthy = True, BACKOFF_BASE = 1 / 100\<rparr>"

definition RecordingTransport :: "int \<Rightarrow> nat \<Rightarrow> nat \<Rightarrow> attempt_env" where
  "RecordingTransport status fail_count n =
     \<lparr>t_enter = 100 + real n, t_leave = 100 + real n,
      reply = (if n \<le> fail_count then Raised HTTPError else Response status)\<rparr>"

section \<open>The classifier: \<open>parse_line\<close> of \<^verbatim>\<open>parser.py\<close> and of \<^verbatim>\<open>clawbeam/parser.py\<close>\<close>

text \<open>
  The values that \<^verbatim>\<open>json.loads\<close> returns. \<open>JNull\<close> is Python's \<^verbatim>\<open>None\<close>; \<open>JNonfinite\<close> stands
  for the floats \<^verbatim>\<open>NaN\<close>, \<^verbatim>\<open>Infinity\<close> and \<^verbatim>\<open>-Infinity\<close>, which \<^verbatim>\<open>json.loads\<close> accepts. A
  dictionary is an association list, looked up from the front. Strings are lists of
  8-bit characters.
\<close>

datatype json =
  JNull | JBool bool | JInt int | JFloat real | JNonfinite | JStr string
  | JArr "json list" | JObj "(string \<times> json) list"

text \<open>Truth value of a Python object, as \<^verbatim>\<open>if x\<close>, \<^verbatim>\<open>not x\<close> and \<^verbatim>\<open>x or y\<close> read it.\<close>

fun truthy :: "json \<Rightarrow> bool" where
  "truthy JNull = False"
| "truthy (JBool b) = b"
| "truthy (JInt n) = (n \<noteq> 0)"
| "truthy (JFloat r) = (r \<noteq> 0)"
| "truthy JNonfinite = True"
| "truthy (JStr s) = (s \<noteq> [])"
| "truthy (JArr xs) = (xs \<noteq> [])"
| "truthy (JObj kvs) = (kvs \<noteq> [])"

definition py_or :: "json \<Rightarrow> json \<Rightarrow> json" where
  "py_or a b = (if truthy a then a else b)"

text \<open>
  \<^verbatim>\<open>x.get(key, default)\<close>: only a dictionary has the method; on any other value the
  attribute lookup raises \<open>AttributeError\<close>. \<^verbatim>\<open>x.get(key)\<close> is \<open>get x key JNull\<close>.
\<close>

definition get :: "json \<Rightarrow> string \<Rightarrow> json \<Rightarrow> pyexn + json" where
  "get x key dflt =
     (case x of
        JObj kvs \<Rightarrow> Inr (case map_of kvs key of None \<Rightarrow> dflt | Some v \<Rightarrow> v)
      | _ \<Rightarrow> Inl AttributeError)"

text \<open>Sequencing of steps that may raise: the first exception ends the computation.\<close>

definition and_then :: "pyexn + 'a \<Rightarrow> ('a \<Rightarrow> pyexn + 'b) \<Rightarrow> pyexn + 'b" where
  "and_then r f = (case r of Inl e \<Rightarrow> Inl e | Inr v \<Rightarrow> f v)"

text \<open>
  \<^verbatim>\<open>str.isspace\<close>, \<^verbatim>\<open>str.strip\<close> and \<^verbatim>\<open>str.lower\<close> on 8-bit characters: the whitespace
  characters are 0x09 to 0x0D, 0x1C to 0x20, 0x85 and 0xA0; the upper-case letters are
  A to Z and 0xC0 to 0xDE without 0xD7.
\<close>

definition isspace :: "char \<Rightarrow> bool" where
  "isspace c =
     (let n = (of_char c :: nat)
      in (9 \<le> n \<and> n \<le> 13) \<or> (28 \<le> n \<and> n \<le> 32) \<or> n = 133 \<or> n = 160)"

definition strip :: "string \<Rightarrow> string" where
  "strip s = rev (dropWhile isspace (rev (dropWhile isspace s)))"

definition lower_char :: "char \<Rightarrow> char" where
  "lower_char c =
     (let n = (of_char c :: nat)
      in if (65 \<le> n \<and> n \<le> 90) \<or> (192 \<le> n \<and> n \<le> 222 \<and> n \<noteq> 215)
         then char_of (n + 32) else c)"

definition lower :: "string \<Rightarrow> string" where
  "lower s = map lower_char s"

text \<open>\<^verbatim>\<open>x.lower()\<close> on a value of any type: only a string has the method.\<close>

definition lower_of :: "json \<Rightarrow> pyexn + string" where
  "lower_of x = (case x of JStr s \<Rightarrow> Inr (lower s) | _ \<Rightarrow> Inl AttributeError)"

text \<open>
  The library and the clock are the classifier's environment:
  \<^item> \<open>loads\<close> is \<^verbatim>\<open>json.loads\<close>: the value decoded, or the exception raised
    (\<open>JSONDecodeError\<close> for text that is not JSON);
  \<^item> \<open>fromisoformat\<close> is \<^verbatim>\<open>datetime.fromisoformat\<close> on a string, \<open>None\<close> when it raises
    \<open>ValueError\<close>;
  \<^item> \<open>str_other\<close> is \<^verbatim>\<open>str\<close> on a value that is not a string;
  \<^item> \<open>int_of_str\<close> is \<^verbatim>\<open>int\<close> on a string, \<open>None\<close> when it raises \<open>ValueError\<close>;
  \<^item> \<open>utcnow\<close> is \<^verbatim>\<open>datetime.now(timezone.utc)\<close>;
  \<^item> \<open>uuid4\<close> is the 128-bit integer of \<^verbatim>\<open>uuid.uuid4()\<close>.
\<close>

record 'ts library =
  loads :: "string \<Rightarrow> pyexn + json"
  fromisoformat :: "string \<Rightarrow> 'ts option"
  str_other :: "json \<Rightarrow> string"
  int_of_str :: "string \<Rightarrow> int option"
  utcnow :: 'ts
  uuid4 :: nat

text \<open>
  \<^verbatim>\<open>uuid.uuid4().hex\<close>: the 32 lower-case hexadecimal digits of the 128-bit integer (the
  32 low digits of the number, most significant first).
\<close>

definition hex_digit :: "nat \<Rightarrow> char" where
  "hex_digit d = (if d < 10 then char_of (48 + d) else char_of (87 + d))"

fun hex_digits :: "nat \<Rightarrow> nat \<Rightarrow> string" where
  "hex_digits 0 n = []"
| "hex_digits (Suc k) n = hex_digits k (n div 16) @ [hex_digit (n mod 16)]"

definition hex :: "nat \<Rightarrow> string" where
  "hex n = hex_digits 32 n"

subsection \<open>\<^verbatim>\<open>parser.py\<close>\<close>

datatype Severity = INFO | WARNING | ERROR

text \<open>
  The dataclass \<open>Event\<close>. Its \<open>id\<close> has the default
  \<^verbatim>\<open>uuid.uuid4().hex[:12]\<close>; \<open>parse_line\<close> never passes an \<open>id\<close>. The token count is
  whatever value the usage object holds (\<open>JNull\<close> for \<^verbatim>\<open>None\<close>).
\<close>

record 'ts Event =
  ev_id :: string
  ev_event_type :: EventType
  ev_severity :: Severity
  ev_timestamp :: 'ts
  ev_raw_payload :: json
  ev_token_count :: json

definition detect_error :: "json \<Rightarrow> pyexn + bool" where
  "detect_error payload =
     and_then (get payload ''message'' (JObj [])) (\<lambda>msg.
     and_then (get msg ''content'' (JStr [])) (\<lambda>content.
       case content of
         JStr s \<Rightarrow>
           (let lowered = lower s
            in Inr (\<exists>kw \<in> set [''error'', ''exception'', ''traceback'', ''failed'']. sublist kw lowered))
       | _ \<Rightarrow> Inr False))"

definition parse_line :: "'ts library \<Rightarrow> string \<Rightarrow> pyexn + 'ts Event option" where
  "parse_line lib line0 =
     (let line = strip line0 in
      if line = [] then Inr None
      else
        case loads lib line of
          Inl exc \<Rightarrow> if exc = JSONDecodeError then Inr None else Inl exc
        | Inr data \<Rightarrow>
            and_then (get data ''message'' (JObj [])) (\<lambda>msg.
            and_then (get msg ''role'' (JStr [])) (\<lambda>role_value.
            and_then (lower_of role_value) (\<lambda>role.
            and_then (get data ''type'' (JStr [])) (\<lambda>type_value.
            and_then (lower_of type_value) (\<lambda>record_type.
            and_then
              (if role = ''user'' \<or> record_type = ''user'' then Inr (EV_USER_INPUT, INFO)
               else if record_type \<in> set [''tool_call'', ''toolcall''] \<or> role = ''toolcall''
                 then Inr (EV_TOOL_CALL, INFO)
               else if record_type \<in> set [''tool_result'', ''toolresult''] \<or> role = ''toolresult''
                 then and_then (detect_error data) (\<lambda>is_error.
                        if is_error then Inr (EV_TOOL_RESULT_ERROR, ERROR)
                        else Inr (EV_TOOL_RESULT_SUCCESS, INFO))
               else if role = ''assistant'' \<or> record_type = ''assistant''
                 then Inr (EV_ASSISTANT, INFO)
               else Inr (EV_UNKNOWN, INFO)) (\<lambda>(event_type, severity).
            and_then (get data ''usage'' (JObj [])) (\<lambda>usage.
            and_then
              (case usage of
                 JObj kvs \<Rightarrow>
                   and_then (get usage ''total_tokens'' JNull) (\<lambda>a.
                   and_then (get usage ''totalTokens'' JNull) (\<lambda>b. Inr (py_or a b)))
               | _ \<Rightarrow> Inr JNull) (\<lambda>token_count.
            and_then (get data ''timestamp'' JNull) (\<lambda>t1.
            and_then (get data ''ts'' JNull) (\<lambda>t2.
              let ts_str = py_or t1 t2;
                  ts = (if truthy ts_str
                        then (case fromisoformat lib
                                     (case ts_str of JStr s \<Rightarrow> s | _ \<Rightarrow> str_other lib ts_str) of
                                Some t \<Rightarrow> t
                              | None \<Rightarrow> utcnow lib)
                        else utcnow lib)
              in Inr (Some \<lparr>ev_id = take 12 (hex (uuid4 lib)), ev_event_type = event_type,
                            ev_severity = severity, ev_timestamp = ts, ev_raw_payload = data,
                            ev_token_count = token_count\<rparr>))))))))))))"

subsection \<open>\<^verbatim>\<open>clawbeam/parser.py\<close>\<close>

datatype cb_Severity = cb_INFO | cb_ERROR

text \<open>
  The dataclass \<open>Event\<close> of \<^verbatim>\<open>clawbeam/parser.py\<close>. Its \<open>id\<close> is declared
  \<^verbatim>\<open>str | None\<close> and holds whatever value \<open>parse_line\<close> found (\<open>JNull\<close> for \<^verbatim>\<open>None\<close>).
\<close>

record 'ts cb_Event =
  cb_id :: json
  cb_event_type :: EventType
  cb_message :: json
  cb_severity :: cb_Severity
  cb_token_count :: "int option"
  cb_timestamp :: "'ts"

definition startswith :: "string \<Rightarrow> string \<Rightarrow> bool" where
  "startswith s p = prefix p s"

definition map_type :: "json \<Rightarrow> json \<Rightarrow> pyexn + EventType \<times> cb_Severity" where
  "map_type type_str message =
     (if \<not> truthy type_str then Inr (EV_UNKNOWN, cb_INFO)
      else if type_str = JStr ''user'' then Inr (EV_USER_INPUT, cb_INFO)
      else if type_str = JStr ''assistant'' then Inr (EV_ASSISTANT, cb_INFO)
      else if type_str = JStr ''tool_call'' then Inr (EV_TOOL_CALL, cb_INFO)
      else if type_str = JStr ''tool_result''
        then and_then (get (py_or message (JObj [])) ''content'' (JStr [])) (\<lambda>content.
               case content of
                 JStr s \<Rightarrow>
                   if startswith (lower s) ''error'' then Inr (EV_TOOL_RESULT_ERROR, cb_ERROR)
                   else Inr (EV_TOOL_RESULT_SUCCESS, cb_INFO)
               | _ \<Rightarrow> Inr (EV_TOOL_RESULT_SUCCESS, cb_INFO))
      else Inr (EV_UNKNOWN, cb_INFO))"

text \<open>
  \<^verbatim>\<open>int(x)\<close> inside \<^verbatim>\<open>try ... except Exception\<close>: \<open>None\<close> when the conversion raises. A
  float is truncated towards zero.
\<close>

definition int_or_none :: "'ts library \<Rightarrow> json \<Rightarrow> int option" where
  "int_or_none lib x =
     (case x of
        JInt n \<Rightarrow> Some n
      | JBool b \<Rightarrow> Some (if b then 1 else 0)
      | JFloat r \<Rightarrow> Some (if r \<ge> 0 then \<lfloor>r\<rfloor> else \<lceil>r\<rceil>)
      | JStr s \<Rightarrow> int_of_str lib s
      | _ \<Rightarrow> None)"

definition cb_parse_line :: "'ts library \<Rightarrow> string \<Rightarrow> pyexn + 'ts cb_Event option" where
  "cb_parse_line lib line =
     (if line = [] \<or> strip line = [] then Inr None
      else
        case loads lib line of
          Inl exc \<Rightarrow> if exc = JSONDecodeError then Inr None else Inl exc
        | Inr obj \<Rightarrow>
            and_then (get obj ''type'' JNull) (\<lambda>type_str.
            and_then (get obj ''message'' (JObj [])) (\<lambda>m.
            and_then (get obj ''usage'' JNull) (\<lambda>u.
              let message = py_or m (JObj []); usage = py_or u (JObj []) in
            and_then (map_type type_str message) (\<lambda>(evt_type, severity).
            and_then (get obj ''timestamp'' JNull) (\<lambda>ts.
              let timestamp =
                    (if truthy ts
                     then (case ts of
                             JStr s \<Rightarrow> (case fromisoformat lib s of Some t \<Rightarrow> t | None \<Rightarrow> utcnow lib)
                           | _ \<Rightarrow> utcnow lib)
                     else utcnow lib);
                  token_count =
                    (case usage of
                       JObj kvs \<Rightarrow>
                         (case map_of kvs ''total_tokens'' of
                            Some v \<Rightarrow> int_or_none lib v
                          | None \<Rightarrow> None)
                     | _ \<Rightarrow> None)
              in
            and_then (get obj ''id'' JNull) (\<lambda>i.
            and_then (get obj ''timestamp'' JNull) (\<lambda>t.
              let evt_id = py_or (py_or i t) JNull
              in Inr (Some \<lparr>cb_id = evt_id, cb_event_type = evt_type, cb_message = message,
                            cb_severity = severity, cb_token_count = token_count,
                            cb_timestamp = timestamp\<rparr>)))))))))"

text \<open>
  A library for examples: it decodes three lines, a record of type \<open>user\<close> with no id and
  no timestamp, the same record with the id \<open>abc\<close>, and the number 42; any other text is
  not JSON. Timestamps are strings.
\<close>

definition quoted :: "string \<Rightarrow> string" where
  "quoted s = CHR 0x22 # s @ [CHR 0x22]"

definition line_user :: string where
  "line_user = ''{'' @ quoted ''type'' @ '': '' @ quoted ''user'' @ ''}''"

definition line_user_id :: string where
  "line_user_id = ''{'' @ quoted ''type'' @ '': '' @ quoted ''user'' @ '', '' @ quoted ''id''
                   @ '': '' @ quoted ''abc'' @ ''}''"

definition test_library :: "string library" where
  "test_library =
     \<lparr>loads = (\<lambda>s. if s = line_user then Inr (JObj [(''type'', JStr ''user'')])
                   else if s = line_user_id
                     then Inr (JObj [(''type'', JStr ''user''), (''id'', JStr ''abc'')])
                   else if s = ''42'' then Inr (JInt 42)
                   else Inl JSONDecodeError),
      fromisoformat = (\<lambda>s. None),
      str_other = (\<lambda>v. []),
      int_of_str = (\<lambda>s. None),
      utcnow = ''now'',
      uuid4 = 0\<rparr>"



section \<open>The log tailer: \<open>tail_file\<close> of \<^verbatim>\<open>session_watcher.py\<close> and of \<^verbatim>\<open>clawbeam/session_watcher.py\<close>\<close>

text \<open>
  The file is a list of bytes (natural numbers below 256) and is opened with
  \<^verbatim>\<open>open(path, "r", encoding="utf-8")\<close>. Text is a list of code points. \<open>pos\<close> is the read
  position of the handle, in bytes; \<open>buffer\<close> is the text read and not yet yielded. The
  file exists. The sleeps between reads are not modelled.
\<close>

type_synonym pystr = "nat list"

abbreviation newline :: nat where
  "newline \<equiv> 10"

record tailer =
  pos :: nat
  buffer :: pystr

text \<open>\<^verbatim>\<open>fh.seek(0, os.SEEK_END)\<close> on a file whose content is \<open>content\<close>, with an empty buffer.\<close>

definition seek_end :: "nat list \<Rightarrow> tailer" where
  "seek_end content = \<lparr>pos = length content, buffer = []\<rparr>"

text \<open>
  The strict UTF-8 decoder on all the bytes it is given, as \<^verbatim>\<open>decode(bytes, final=True)\<close>:
  \<open>None\<close> is \<open>UnicodeDecodeError\<close>, raised for a byte that cannot start a character, for
  a wrong continuation byte, for an overlong form or a surrogate, and for a character
  whose bytes end before it is complete.
\<close>

definition continuation :: "nat \<Rightarrow> bool" where
  "continuation c = (128 \<le> c \<and> c \<le> 191)"

definition second_of_three :: "nat \<Rightarrow> nat \<Rightarrow> bool" where
  "second_of_three b c =
     (if b = 224 then 160 \<le> c \<and> c \<le> 191
      else if b = 237 then 128 \<le> c \<and> c \<le> 159
      else continuation c)"

definition second_of_four :: "nat \<Rightarrow> nat \<Rightarrow> bool" where
  "second_of_four b c =
     (if b = 240 then 144 \<le> c \<and> c \<le> 191
      else if b = 244 then 128 \<le> c \<and> c \<le> 143
      else continuation c)"

fun utf8_decode :: "nat list \<Rightarrow> pystr option" where
  "utf8_decode [] = Some []"
| "utf8_decode (b # bs) =
     (if b < 128 then map_option (Cons b) (utf8_decode bs)
      else if 194 \<le> b \<and> b \<le> 223 then
        (case bs of
           c1 # r \<Rightarrow>
             if continuation c1
             then map_option (Cons ((b - 192) * 64 + (c1 - 128))) (utf8_decode r)
             else None
         | _ \<Rightarrow> None)
      else if 224 \<le> b \<and> b \<le> 239 then
        (case bs of
           c1 # c2 # r \<Rightarrow>
             if second_of_three b c1 \<and> continuation c2
             then map_option (Cons ((b - 224) * 4096 + (c1 - 128) * 64 + (c2 - 128)))
                    (utf8_decode r)
             else None
         | _ \<Rightarrow> None)
      else if 240 \<le> b \<and> b \<le> 244 then
        (case bs of
           c1 # c2 # c3 # r \<Rightarrow>
             if second_of_four b c1 \<and> continuation c2 \<and> continuation c3
             then map_option
                    (Cons ((b - 240) * 262144 + (c1 - 128) * 4096 + (c2 - 128) * 64 + (c3 - 128)))
                    (utf8_decode r)
             else None
         | _ \<Rightarrow> None)
      else None)"

text \<open>
  Universal newlines on the text of one read, as the newline decoder does with
  \<^verbatim>\<open>final=True\<close>: a carriage return followed by a line feed becomes one line feed, any
  other carriage return becomes a line feed, also the last character of the read.
\<close>

fun translate_newlines :: "pystr \<Rightarrow> pystr" where
  "translate_newlines [] = []"
| "translate_newlines [x] = (if x = 13 then [newline] else [x])"
| "translate_newlines (x # y # r) =
     (if x = 13
      then (if y = newline then newline # translate_newlines r
            else newline # translate_newlines (y # r))
      else x # translate_newlines (y # r))"

text \<open>
  \<^verbatim>\<open>fh.read()\<close>: the bytes from the read position to the end of the file, decoded and
  with newlines translated; it raises when the bytes do not decode.
\<close>

definition read_chunk :: "nat list \<Rightarrow> tailer \<Rightarrow> (pyexn + pystr) \<times> tailer" where
  "read_chunk content t =
     (let bytes = drop (pos t) content;
          t1 = t\<lparr>pos := pos t + length bytes\<rparr>
      in case utf8_decode bytes of
           None \<Rightarrow> (Inl UnicodeDecodeError, t1)
         | Some decoded \<Rightarrow> (Inr (translate_newlines decoded), t1))"

text \<open>
  The inner loop of \<^verbatim>\<open>session_watcher.py\<close>:
  \<^verbatim>\<open>while "\n" in buffer: line, buffer = buffer.split("\n", 1); yield line\<close>.
  It returns the lines yielded and the buffer left.
\<close>

function drain :: "pystr \<Rightarrow> pystr list \<times> pystr" where
  "drain buf =
     (if newline \<in> set buf
      then (let line = takeWhile (\<lambda>c. c \<noteq> newline) buf;
                rest = tl (dropWhile (\<lambda>c. c \<noteq> newline) buf);
                (lines, left) = drain rest
            in (line # lines, left))
      else ([], buf))"
  by pat_completeness auto
termination
proof (relation "measure length")
  show "wf (measure length)" by simp
next
  fix buf :: pystr and line rest
  assume "newline \<in> set buf" and "rest = tl (dropWhile (\<lambda>c. c \<noteq> newline) buf)"
  moreover have "length (dropWhile (\<lambda>c. c \<noteq> newline) buf) \<le> length buf"
    by (rule length_dropWhile_le)
  moreover from \<open>newline \<in> set buf\<close> have "dropWhile (\<lambda>c. c \<noteq> newline) buf \<noteq> []"
    by simp
  ultimately show "(rest, buf) \<in> measure length"
    by (cases "dropWhile (\<lambda>c. c \<noteq> newline) buf") auto
qed

text \<open>
  What the generator did over the iterations observed: the lines it yielded, the handle
  it is left with, and the exception that ended it, if any.
\<close>

record tailing =
  yielded :: "pystr list"
  handle :: tailer
  died :: "pyexn option"

text \<open>
  One iteration of the outer loop with the stop event not set: read; on a non-empty
  chunk extend the buffer and yield its complete lines, else sleep. An exception of the
  read leaves the generator.
\<close>

definition poll :: "nat list \<Rightarrow> tailer \<Rightarrow> tailing" where
  "poll content t =
     (case read_chunk content t of
        (Inl exc, t1) \<Rightarrow> \<lparr>yielded = [], handle = t1, died = Some exc\<rparr>
      | (Inr chunk, t1) \<Rightarrow>
          if chunk \<noteq> []
          then (let (lines, left) = drain (buffer t1 @ chunk)
                in \<lparr>yielded = lines, handle = t1\<lparr>buffer := left\<rparr>, died = None\<rparr>)
          else \<lparr>yielded = [], handle = t1, died = None\<rparr>)"

text \<open>
  The outer loop over the iterations observed so far. Each observation is what one
  iteration finds: whether the stop event is set, and the content of the file. The
  generator returns at the first iteration that finds the stop event set, and ends at
  the first read that raises.
\<close>

fun tail_loop :: "(bool \<times> nat list) list \<Rightarrow> tailer \<Rightarrow> tailing" where
  "tail_loop [] t = \<lparr>yielded = [], handle = t, died = None\<rparr>"
| "tail_loop ((stop_set, content) # later) t =
     (if stop_set then \<lparr>yielded = [], handle = t, died = None\<rparr>
      else (let p = poll content t
            in case died p of
                 Some exc \<Rightarrow> p
               | None \<Rightarrow>
                   (let r = tail_loop later (handle p)
                    in r\<lparr>yielded := yielded p @ yielded r\<rparr>)))"

definition tail_file :: "nat list \<Rightarrow> (bool \<times> nat list) list \<Rightarrow> tailing" where
  "tail_file content0 observed = tail_loop observed (seek_end content0)"

text \<open>
  \<^verbatim>\<open>clawbeam/session_watcher.py\<close> finds the newline with \<^verbatim>\<open>buffer.find("\n")\<close>, which is
  \<open>-1\<close> when there is none, and slices the buffer at the index.
\<close>

fun find_str :: "pystr \<Rightarrow> nat \<Rightarrow> int" where
  "find_str [] c = -1"
| "find_str (x # xs) c =
     (if x = c then 0 else (let i = find_str xs c in if i = -1 then -1 else i + 1))"

function cb_drain :: "pystr \<Rightarrow> pystr list \<times> pystr" where
  "cb_drain buf =
     (let idx = find_str buf newline in
      if idx = -1 then ([], buf)
      else (let line = take (nat idx) buf;
                rest = drop (nat idx + 1) buf;
                (lines, left) = cb_drain rest
            in (line # lines, left)))"
  by pat_completeness auto
termination
proof (relation "measure length")
  show "wf (measure length)" by simp
next
  fix buf :: pystr and idx line rest
  assume "idx = find_str buf newline" and "idx \<noteq> -1" and "rest = drop (nat idx + 1) buf"
  then show "(rest, buf) \<in> measure length"
    by (cases buf) auto
qed

definition cb_poll :: "nat list \<Rightarrow> tailer \<Rightarrow> tailing" where
  "cb_poll content t =
     (case read_chunk content t of
        (Inl exc, t1) \<Rightarrow> \<lparr>yielded = [], handle = t1, died = Some exc\<rparr>
      | (Inr chunk, t1) \<Rightarrow>
          if chunk = [] then \<lparr>yielded = [], handle = t1, died = None\<rparr>
          else (let (lines, left) = cb_drain (buffer t1 @ chunk)
                in \<lparr>yielded = lines, handle = t1\<lparr>buffer := left\<rparr>, died = None\<rparr>))"

fun cb_tail_loop :: "(bool \<times> nat list) list \<Rightarrow> tailer \<Rightarrow> tailing" where
  "cb_tail_loop [] t = \<lparr>yielded = [], handle = t, died = None\<rparr>"
| "cb_tail_loop ((stop_set, content) # later) t =
     (if stop_set then \<lparr>yielded = [], handle = t, died = None\<rparr>
      else (let p = cb_poll content t
            in case died p of
                 Some exc \<Rightarrow> p
               | None \<Rightarrow>
                   (let r = cb_tail_loop later (handle p)
                    in r\<lparr>yielded := yielded p @ yielded r\<rparr>)))"

definition cb_tail_file :: "nat list \<Rightarrow> (bool \<times> nat list) list \<Rightarrow> tailing" where
  "cb_tail_file content0 observed = cb_tail_loop observed (seek_end content0)"

text \<open>
  The file only grows: each observed content extends the one before it, the first one
  the content at the start.
\<close>

fun append_only :: "nat list \<Rightarrow> nat list list \<Rightarrow> bool" where
  "append_only c [] = True"
| "append_only c (d # ds) = (prefix c d \<and> append_only d ds)"

text \<open>A list of lines written out, each followed by a newline.\<close>

definition written :: "pystr list \<Rightarrow> pystr" where
  "written ls = concat (map (\<lambda>l. l @ [newline]) ls)"

text \<open>
  Plain content: bytes below 128 (ASCII) other than the carriage return. It decodes to
  itself.
\<close>

definition plain :: "nat list \<Rightarrow> bool" where
  "plain bs = (\<forall>b \<in> set bs. b < 128 \<and> b \<noteq> 13)"

section \<open>Properties\<close>

lemma cb_do_transition_cases:
  "cb_do_transition new now sm = quiet sm \<or>
   (machine (cb_do_transition new now sm) = cb_commit new now sm
    \<and> notified (cb_do_transition new now sm) \<in> {[], [(cb_state sm, new)]}
    \<and> cb_state sm \<noteq> new
    \<and> \<not> now - cb_state_entered_at sm < min_state_duration (cb_cfg sm)
    \<and> (\<forall>fired. cb_last_transition_times sm (cb_state sm, new) = Some fired
          \<longrightarrow> \<not> now - fired < debounce_window (cb_cfg sm)))"
  by (auto simp: cb_do_transition_def Let_def quiet_def split: option.splits)

lemma cb_do_transition_keeps:
  assumes "cb_last_transition_times sm (a, b) = Some t0"
      and "now - t0 < debounce_window (cb_cfg sm)"
  shows "cb_last_transition_times (machine (cb_do_transition new now sm)) (a, b) = Some t0
       \<and> cb_cfg (machine (cb_do_transition new now sm)) = cb_cfg sm
       \<and> (a, b) \<notin> set (notified (cb_do_transition new now sm))"
  using assms cb_do_transition_cases [of new now sm]
  by (auto simp: quiet_def cb_commit_def)

lemma cb_step_keeps:
  assumes "cb_last_transition_times sm (a, b) = Some t0"
      and "now - t0 < debounce_window (cb_cfg sm)"
  shows "cb_last_transition_times (machine (cb_step r now sm)) (a, b) = Some t0
       \<and> cb_cfg (machine (cb_step r now sm)) = cb_cfg sm
       \<and> (a, b) \<notin> set (notified (cb_step r now sm))"
  using assms
  by (cases r) (auto simp: cb_handle_event_def cb_set_network_error_def
      cb_clear_network_error_def cb_idle_watcher_def quiet_def Let_def
      dest: cb_do_transition_keeps)

lemma cb_run_keeps:
  assumes "cb_last_transition_times sm (a, b) = Some t0"
      and "\<forall>(r, now) \<in> set rs. now - t0 < debounce_window (cb_cfg sm)"
  shows "cb_last_transition_times (fst (cb_run rs sm)) (a, b) = Some t0
       \<and> (a, b) \<notin> set (snd (cb_run rs sm))"
  using assms
proof (induction rs arbitrary: sm)
  case Nil
  then show ?case by simp
next
  case (Cons x rs)
  obtain r now where x: "x = (r, now)" by (cases x)
  from Cons.prems x have w: "now - t0 < debounce_window (cb_cfg sm)" by simp
  note k = cb_step_keeps [OF Cons.prems(1) w, of r]
  from k Cons.prems(2) have
    "\<forall>(q, t) \<in> set rs. t - t0 < debounce_window (cb_cfg (machine (cb_step r now sm)))"
    by simp
  with k Cons.IH [of "machine (cb_step r now sm)"]
  show ?case using x by (auto simp: Let_def split: prod.splits)
qed

lemma try_transition_admitted:
  assumes "target \<noteq> state sm"
      and "\<not> now - state_entered_at sm < min_state_duration (cfg sm)"
      and "\<not> (Some (state sm, target) = last_transition_key sm
              \<and> now - last_transition_time sm < debounce_window (cfg sm))"
  shows "machine (try_transition target now sm) = commit target now sm"
    and "on_transition sm = Some cb \<Longrightarrow> notified (try_transition target now sm) = [(state sm, target)]"
  using assms by (auto simp: try_transition_def quiet_def Let_def split: option.splits)

lemma try_transition_machine:
  "machine (try_transition target now sm) = sm
   \<or> machine (try_transition target now sm) = commit target now sm"
  by (auto simp: try_transition_def quiet_def Let_def split: option.splits)

lemma try_transition_not_raised:
  "only_Exceptions (on_transition sm) \<Longrightarrow> raised (try_transition target now sm) = None"
  by (auto simp: try_transition_def quiet_def Let_def only_Exceptions_def split: option.splits)

lemma handle_event_mapped:
  assumes "EVENT_TO_STATE (event_type event) = Some t"
      and "case token_count event of None \<Rightarrow> True | Some n \<Rightarrow> n < HIGH_TOKEN_THRESHOLD"
  shows "handle_event event now sm = try_transition t now (sm\<lparr>last_activity := now, idle_task := Some now\<rparr>)"
  using assms
  by (auto simp: handle_event_def restart_idle_timer_def Let_def split: option.splits)

lemma handle_event_high:
  assumes "token_count event = Some n" and "HIGH_TOKEN_THRESHOLD \<le> n"
  shows "handle_event event now sm
           = try_transition HIGH_TOKENS now (sm\<lparr>last_activity := now, idle_task := Some now\<rparr>)"
  using assms
  by (auto simp: handle_event_def restart_idle_timer_def HIGH_TOKEN_THRESHOLD_def Let_def)

lemma first_event:
  assumes "t0 \<le> t1" and "target \<noteq> IDLE"
  shows "machine (try_transition target t1
           ((init_StateMachine \<lparr>min_state_duration = 0, idle_timeout = i, debounce_window = w\<rparr> cb t0)
              \<lparr>last_activity := t1, idle_task := Some t1\<rparr>))
         = \<lparr>cfg = \<lparr>min_state_duration = 0, idle_timeout = i, debounce_window = w\<rparr>,
            on_transition = cb, state = target, state_entered_at = t1, last_activity = t1,
            last_transition_key = Some (IDLE, target), last_transition_time = t1,
            idle_task = Some t1\<rparr>"
  using assms
  by (subst try_transition_admitted(1)) (simp_all add: init_StateMachine_def commit_def)

text \<open>
  C1, as amended. In \<^verbatim>\<open>state_machine.py\<close> an event of kind \<open>UNKNOWN\<close> whose token
  count does not reach the high-token threshold attempts no transition: \<open>handle_event\<close>
  only records the activity and restarts the idle timer, the state is unchanged, the
  observer is not called and nothing is raised. In \<^verbatim>\<open>clawbeam/state_machine.py\<close> an
  event of kind \<open>UNKNOWN\<close> is a request for a transition to \<open>IDLE\<close>.
\<close>

theorem unknown_event_no_attempt:
  assumes "event_type event = EV_UNKNOWN"
  shows "((case token_count event of None \<Rightarrow> True | Some n \<Rightarrow> n < HIGH_TOKEN_THRESHOLD) \<longrightarrow>
            machine (handle_event event now sm) = sm\<lparr>last_activity := now, idle_task := Some now\<rparr>
          \<and> state (machine (handle_event event now sm)) = state sm
          \<and> notified (handle_event event now sm) = []
          \<and> raised (handle_event event now sm) = None)
       \<and> cb_handle_event event now' cm = cb_do_transition IDLE now' cm"
  using assms
  by (auto simp: handle_event_def EVENT_TO_STATE_def restart_idle_timer_def quiet_def
        cb_handle_event_def cb_mapping_def Let_def split: option.splits)

text \<open>C1, at an \<open>UNKNOWN\<close> event with ten tokens that arrives in state \<open>USER_INPUT\<close>.\<close>

theorem unknown_event_no_attempt_witness:
  "state (machine (handle_event (ev EV_UNKNOWN (Some 10)) 2
       (machine (handle_event (ev EV_USER_INPUT None) 1 (init_StateMachine zero_cfg (Some returns) 0)))))
     = USER_INPUT
   \<and> notified (handle_event (ev EV_UNKNOWN (Some 10)) 2
       (machine (handle_event (ev EV_USER_INPUT None) 1 (init_StateMachine zero_cfg (Some returns) 0))))
     = []"
proof -
  let ?m = "machine (handle_event (ev EV_USER_INPUT None) 1 (init_StateMachine zero_cfg (Some returns) 0))"
  have k: "event_type (ev EV_UNKNOWN (Some 10)) = EV_UNKNOWN" by (simp add: ev_def)
  have n: "case token_count (ev EV_UNKNOWN (Some 10)) of None \<Rightarrow> True | Some n \<Rightarrow> n < HIGH_TOKEN_THRESHOLD"
    by (simp add: ev_def HIGH_TOKEN_THRESHOLD_def)
  have "handle_event (ev EV_USER_INPUT None) 1 (init_StateMachine zero_cfg (Some returns) 0)
      = try_transition USER_INPUT 1
          ((init_StateMachine zero_cfg (Some returns) 0)\<lparr>last_activity := 1, idle_task := Some 1\<rparr>)"
    by (rule handle_event_mapped) (simp_all add: ev_def EVENT_TO_STATE_def)
  then have s: "state ?m = USER_INPUT"
    unfolding zero_cfg_def by (simp add: first_event)
  from unknown_event_no_attempt [OF k, of 2 ?m, THEN conjunct1, rule_format, OF n] s
  show ?thesis by simp
qed

text \<open>
  C1 as stated fails on \<^verbatim>\<open>clawbeam/state_machine.py\<close>: with no minimum duration and no
  debounce window, an \<open>UNKNOWN\<close> event that arrives in state \<open>USER_INPUT\<close> moves the
  machine to \<open>IDLE\<close> and the observer is called with \<open>(USER_INPUT, IDLE)\<close>.
\<close>

theorem cb_unknown_event_counterexample:
  "cb_state (machine (cb_handle_event (ev EV_USER_INPUT None) 1 (cb_init_StateMachine zero_cfg (Some returns) 0)))
     = USER_INPUT
   \<and> cb_state (machine (cb_handle_event (ev EV_UNKNOWN None) 2
       (machine (cb_handle_event (ev EV_USER_INPUT None) 1 (cb_init_StateMachine zero_cfg (Some returns) 0)))))
     = IDLE
   \<and> notified (cb_handle_event (ev EV_UNKNOWN None) 2
       (machine (cb_handle_event (ev EV_USER_INPUT None) 1 (cb_init_StateMachine zero_cfg (Some returns) 0))))
     = [(USER_INPUT, IDLE)]"
  by (simp add: cb_init_StateMachine_def cb_handle_event_def cb_do_transition_def cb_commit_def
        quiet_def cb_mapping_def Let_def zero_cfg_def returns_def ev_def)

text \<open>
  C2, as amended. In \<^verbatim>\<open>state_machine.py\<close> an event whose token count is at least 4000
  is handled as a request for \<open>HIGH_TOKENS\<close>, whatever its kind; and with no minimum
  duration and no debounce window, \<open>USER_INPUT\<close> followed by \<open>ASSISTANT\<close> with 5000 tokens,
  at instants that do not go back, notifies \<open>(IDLE, USER_INPUT)\<close> and then
  \<open>(USER_INPUT, HIGH_TOKENS)\<close>. In \<^verbatim>\<open>clawbeam/state_machine.py\<close> the token count is not
  read: the event is handled as it would be with no token count.
\<close>

theorem high_tokens_override:
  "(token_count event = Some n \<and> HIGH_TOKEN_THRESHOLD \<le> n \<longrightarrow>
      handle_event event now sm
        = try_transition HIGH_TOKENS now (sm\<lparr>last_activity := now, idle_task := Some now\<rparr>))
   \<and> (t0 \<le> t1 \<and> t1 \<le> t2 \<longrightarrow>
        (let sm0 = init_StateMachine \<lparr>min_state_duration = 0, idle_timeout = i, debounce_window = 0\<rparr> (Some cb) t0;
             o1 = handle_event (ev EV_USER_INPUT None) t1 sm0;
             o2 = handle_event (ev EV_ASSISTANT (Some 5000)) t2 (machine o1)
         in notified o1 = [(IDLE, USER_INPUT)] \<and> notified o2 = [(USER_INPUT, HIGH_TOKENS)]
            \<and> state (machine o2) = HIGH_TOKENS))
   \<and> cb_handle_event event now' cm = cb_handle_event (event\<lparr>token_count := None\<rparr>) now' cm"
proof (intro conjI impI)
  assume "token_count event = Some n \<and> HIGH_TOKEN_THRESHOLD \<le> n"
  then show "handle_event event now sm
        = try_transition HIGH_TOKENS now (sm\<lparr>last_activity := now, idle_task := Some now\<rparr>)"
    by (simp add: handle_event_high)
next
  assume t: "t0 \<le> t1 \<and> t1 \<le> t2"
  let ?c = "\<lparr>min_state_duration = 0, idle_timeout = i, debounce_window = 0\<rparr>"
  let ?sm0 = "init_StateMachine ?c (Some cb) t0"
  let ?a0 = "?sm0\<lparr>last_activity := t1, idle_task := Some t1\<rparr>"
  let ?o1 = "handle_event (ev EV_USER_INPUT None) t1 ?sm0"
  let ?a1 = "(machine ?o1)\<lparr>last_activity := t2, idle_task := Some t2\<rparr>"
  let ?o2 = "handle_event (ev EV_ASSISTANT (Some 5000)) t2 (machine ?o1)"
  have o1: "?o1 = try_transition USER_INPUT t1 ?a0"
    by (rule handle_event_mapped) (simp_all add: ev_def EVENT_TO_STATE_def)
  have m1: "machine ?o1 = \<lparr>cfg = ?c, on_transition = Some cb, state = USER_INPUT,
       state_entered_at = t1, last_activity = t1, last_transition_key = Some (IDLE, USER_INPUT),
       last_transition_time = t1, idle_task = Some t1\<rparr>"
    using t by (simp add: o1 first_event)
  have n1: "notified ?o1 = [(IDLE, USER_INPUT)]"
    using t unfolding o1
    by (subst try_transition_admitted(2) [where cb = cb]) (simp_all add: init_StateMachine_def)
  have o2: "?o2 = try_transition HIGH_TOKENS t2 ?a1"
    by (rule handle_event_high [where n = 5000]) (simp_all add: ev_def HIGH_TOKEN_THRESHOLD_def)
  have n2: "notified ?o2 = [(USER_INPUT, HIGH_TOKENS)]"
    using t unfolding o2
    by (subst try_transition_admitted(2) [where cb = cb]) (simp_all add: m1)
  have s2: "state (machine ?o2) = HIGH_TOKENS"
    using t unfolding o2
    by (subst try_transition_admitted(1)) (simp_all add: m1 commit_def)
  show "let sm0 = ?sm0; o1 = handle_event (ev EV_USER_INPUT None) t1 sm0;
            o2 = handle_event (ev EV_ASSISTANT (Some 5000)) t2 (machine o1)
        in notified o1 = [(IDLE, USER_INPUT)] \<and> notified o2 = [(USER_INPUT, HIGH_TOKENS)]
            \<and> state (machine o2) = HIGH_TOKENS"
    unfolding Let_def using n1 n2 s2 by blast
next
  show "cb_handle_event event now' cm = cb_handle_event (event\<lparr>token_count := None\<rparr>) now' cm"
    by (simp add: cb_handle_event_def)
qed

text \<open>C2, at a \<open>TOOL_CALL\<close> event with exactly 4000 tokens and at the scenario at instants 0, 1, 2.\<close>

theorem high_tokens_override_witness:
  "handle_event (ev EV_TOOL_CALL (Some 4000)) 1 (init_StateMachine zero_cfg (Some returns) 0)
     = try_transition HIGH_TOKENS 1
         ((init_StateMachine zero_cfg (Some returns) 0)\<lparr>last_activity := 1, idle_task := Some 1\<rparr>)
   \<and> notified (handle_event (ev EV_ASSISTANT (Some 5000)) 2
        (machine (handle_event (ev EV_USER_INPUT None) 1 (init_StateMachine zero_cfg (Some returns) 0))))
     = [(USER_INPUT, HIGH_TOKENS)]"
proof -
  have a: "token_count (ev EV_TOOL_CALL (Some 4000)) = Some 4000 \<and> HIGH_TOKEN_THRESHOLD \<le> 4000"
    by (simp add: ev_def HIGH_TOKEN_THRESHOLD_def)
  have b: "(0::real) \<le> 1 \<and> (1::real) \<le> 2" by simp
  note h = high_tokens_override [of "ev EV_TOOL_CALL (Some 4000)" 4000 1
      "init_StateMachine zero_cfg (Some returns) 0" 0 1 2 30 returns]
  from h [THEN conjunct1, rule_format, OF a]
       h [THEN conjunct2, THEN conjunct1, rule_format, OF b]
  show ?thesis unfolding Let_def zero_cfg_def by blast
qed

text \<open>
  C2 as stated fails on \<^verbatim>\<open>clawbeam/state_machine.py\<close>: the scenario's second
  notification there is \<open>(USER_INPUT, THINKING)\<close>.
\<close>

theorem cb_high_tokens_counterexample:
  "notified (cb_handle_event (ev EV_USER_INPUT None) 1 (cb_init_StateMachine zero_cfg (Some returns) 0))
     = [(IDLE, USER_INPUT)]
   \<and> notified (cb_handle_event (ev EV_ASSISTANT (Some 5000)) 2
       (machine (cb_handle_event (ev EV_USER_INPUT None) 1 (cb_init_StateMachine zero_cfg (Some returns) 0))))
     = [(USER_INPUT, THINKING)]"
  by (simp add: cb_init_StateMachine_def cb_handle_event_def cb_do_transition_def cb_commit_def
        quiet_def cb_mapping_def Let_def zero_cfg_def returns_def ev_def)

text \<open>
  C3, as amended. In \<^verbatim>\<open>state_machine.py\<close>, \<open>clear_network_error\<close> from a state other
  than \<open>NETWORK_ERROR\<close> does nothing (same machine, no observer call); if it changes the
  state, the state was \<open>NETWORK_ERROR\<close> and becomes \<open>IDLE\<close>; and from \<open>NETWORK_ERROR\<close>
  it moves to \<open>IDLE\<close> and notifies whenever the minimum duration and the debounce window
  admit the transition. In \<^verbatim>\<open>clawbeam/state_machine.py\<close>, \<open>clear_network_error\<close> is a
  request for \<open>IDLE\<close> from any state.
\<close>

theorem clear_network_error_guarded:
  "(state sm \<noteq> NETWORK_ERROR \<longrightarrow> clear_network_error now sm = quiet sm)
   \<and> (state (machine (clear_network_error now sm)) \<noteq> state sm \<longrightarrow>
        state sm = NETWORK_ERROR \<and> state (machine (clear_network_error now sm)) = IDLE)
   \<and> (state sm = NETWORK_ERROR
        \<and> \<not> now - state_entered_at sm < min_state_duration (cfg sm)
        \<and> \<not> (last_transition_key sm = Some (NETWORK_ERROR, IDLE)
              \<and> now - last_transition_time sm < debounce_window (cfg sm)) \<longrightarrow>
        state (machine (clear_network_error now sm)) = IDLE
        \<and> (\<forall>cb. on_transition sm = Some cb \<longrightarrow>
              notified (clear_network_error now sm) = [(NETWORK_ERROR, IDLE)]))
   \<and> cb_clear_network_error now' cm = cb_do_transition IDLE now' cm"
proof (intro conjI impI)
  assume "state sm \<noteq> NETWORK_ERROR"
  then show "clear_network_error now sm = quiet sm"
    by (simp add: clear_network_error_def)
next
  assume "state (machine (clear_network_error now sm)) \<noteq> state sm"
  then show "state sm = NETWORK_ERROR"
    by (auto simp: clear_network_error_def quiet_def split: if_splits)
next
  assume "state (machine (clear_network_error now sm)) \<noteq> state sm"
  then show "state (machine (clear_network_error now sm)) = IDLE"
    using try_transition_machine [of IDLE now sm]
    by (auto simp: clear_network_error_def quiet_def commit_def split: if_splits)
next
  assume a: "state sm = NETWORK_ERROR
        \<and> \<not> now - state_entered_at sm < min_state_duration (cfg sm)
        \<and> \<not> (last_transition_key sm = Some (NETWORK_ERROR, IDLE)
              \<and> now - last_transition_time sm < debounce_window (cfg sm))"
  then have "machine (try_transition IDLE now sm) = commit IDLE now sm"
    by (intro try_transition_admitted(1)) auto
  with a show "state (machine (clear_network_error now sm)) = IDLE"
    by (simp add: clear_network_error_def commit_def)
next
  assume a: "state sm = NETWORK_ERROR
        \<and> \<not> now - state_entered_at sm < min_state_duration (cfg sm)
        \<and> \<not> (last_transition_key sm = Some (NETWORK_ERROR, IDLE)
              \<and> now - last_transition_time sm < debounce_window (cfg sm))"
  show "\<forall>cb. on_transition sm = Some cb \<longrightarrow>
              notified (clear_network_error now sm) = [(NETWORK_ERROR, IDLE)]"
  proof (intro allI impI)
    fix cb assume "on_transition sm = Some cb"
    with a have "notified (try_transition IDLE now sm) = [(state sm, IDLE)]"
      by (intro try_transition_admitted(2) [where cb = cb]) auto
    with a show "notified (clear_network_error now sm) = [(NETWORK_ERROR, IDLE)]"
      by (simp add: clear_network_error_def)
  qed
next
  show "cb_clear_network_error now' cm = cb_do_transition IDLE now' cm"
    by (simp add: cb_clear_network_error_def)
qed

text \<open>C3, at a machine in state \<open>USER_INPUT\<close> and at a machine in state \<open>NETWORK_ERROR\<close>.\<close>

theorem clear_network_error_guarded_witness:
  "clear_network_error 2
       ((init_StateMachine zero_cfg (Some returns) 0)\<lparr>state := USER_INPUT\<rparr>)
     = quiet ((init_StateMachine zero_cfg (Some returns) 0)\<lparr>state := USER_INPUT\<rparr>)
   \<and> state (machine (clear_network_error 2
        ((init_StateMachine zero_cfg (Some returns) 0)\<lparr>state := NETWORK_ERROR\<rparr>))) = IDLE"
proof -
  let ?u = "(init_StateMachine zero_cfg (Some returns) 0)\<lparr>state := USER_INPUT\<rparr>"
  let ?e = "(init_StateMachine zero_cfg (Some returns) 0)\<lparr>state := NETWORK_ERROR\<rparr>"
  have a: "state ?u \<noteq> NETWORK_ERROR" by simp
  have b: "state ?e = NETWORK_ERROR
        \<and> \<not> 2 - state_entered_at ?e < min_state_duration (cfg ?e)
        \<and> \<not> (last_transition_key ?e = Some (NETWORK_ERROR, IDLE)
              \<and> 2 - last_transition_time ?e < debounce_window (cfg ?e))"
    by (simp add: init_StateMachine_def zero_cfg_def)
  from clear_network_error_guarded [of ?u 2, THEN conjunct1, rule_format, OF a]
       clear_network_error_guarded [of ?e 2, THEN conjunct2, THEN conjunct2, THEN conjunct1,
         rule_format, OF b, THEN conjunct1]
  show ?thesis by blast
qed

text \<open>
  C3 as stated fails on \<^verbatim>\<open>clawbeam/state_machine.py\<close>: \<open>clear_network_error\<close> in state
  \<open>USER_INPUT\<close> moves the machine to \<open>IDLE\<close> and calls the observer.
\<close>

theorem cb_clear_network_error_counterexample:
  "cb_state (machine (cb_handle_event (ev EV_USER_INPUT None) 1 (cb_init_StateMachine zero_cfg (Some returns) 0)))
     = USER_INPUT
   \<and> cb_state (machine (cb_clear_network_error 2
       (machine (cb_handle_event (ev EV_USER_INPUT None) 1 (cb_init_StateMachine zero_cfg (Some returns) 0)))))
     = IDLE
   \<and> notified (cb_clear_network_error 2
       (machine (cb_handle_event (ev EV_USER_INPUT None) 1 (cb_init_StateMachine zero_cfg (Some returns) 0))))
     = [(USER_INPUT, IDLE)]"
  by (simp add: cb_init_StateMachine_def cb_handle_event_def cb_do_transition_def cb_commit_def
        cb_clear_network_error_def quiet_def cb_mapping_def Let_def zero_cfg_def returns_def ev_def)

lemma entry_points_not_raised:
  assumes "only_Exceptions (on_transition sm)"
  shows "raised (handle_event event now sm) = None"
    and "raised (set_network_error now sm) = None"
    and "raised (clear_network_error now sm) = None"
    and "raised (idle_watcher now sm) = None"
proof -
  have q: "raised (quiet m) = None" for m :: StateMachine by (simp add: quiet_def)
  have t: "raised (try_transition target now (sm\<lparr>last_activity := now, idle_task := Some now\<rparr>)) = None"
    for target
    using assms by (intro try_transition_not_raised) simp
  show "raised (handle_event event now sm) = None"
    by (simp add: handle_event_def restart_idle_timer_def Let_def q t split: option.splits)
  show "raised (set_network_error now sm) = None"
    using assms by (simp add: set_network_error_def try_transition_not_raised)
  show "raised (clear_network_error now sm) = None"
    using assms by (simp add: clear_network_error_def try_transition_not_raised q)
  show "raised (idle_watcher now sm) = None"
    using assms by (simp add: idle_watcher_def try_transition_not_raised q)
qed

text \<open>
  C4, as amended. For a transition that the guards of \<^verbatim>\<open>state_machine.py\<close> admit, the
  machine left by \<open>try_transition\<close> is the committed one (state, entry instant, last
  key and last firing instant), whatever the observer does; an observer exception
  that derives from \<^verbatim>\<open>Exception\<close> is logged and not raised; and when the observer raises
  only such exceptions, no entry point raises. In \<^verbatim>\<open>clawbeam/state_machine.py\<close> the
  commit also comes first and is kept, but the observer's exception is not caught: it
  leaves \<open>cb_do_transition\<close> and nothing is logged.
\<close>

theorem commit_before_observer:
  assumes "target \<noteq> state sm"
      and "\<not> now - state_entered_at sm < min_state_duration (cfg sm)"
      and "\<not> (Some (state sm, target) = last_transition_key sm
              \<and> now - last_transition_time sm < debounce_window (cfg sm))"
  shows "machine (try_transition target now sm)
           = sm\<lparr>state := target, state_entered_at := now,
                last_transition_key := Some (state sm, target), last_transition_time := now\<rparr>
       \<and> (\<forall>cb e. on_transition sm = Some cb \<and> cb (state sm) target = Some e \<and> is_Exception e \<longrightarrow>
             notified (try_transition target now sm) = [(state sm, target)]
           \<and> logged (try_transition target now sm) = [''on_transition callback failed'']
           \<and> raised (try_transition target now sm) = None)
       \<and> (only_Exceptions (on_transition sm) \<longrightarrow>
             raised (handle_event event now sm) = None
           \<and> raised (set_network_error now sm) = None
           \<and> raised (clear_network_error now sm) = None
           \<and> raised (idle_watcher now sm) = None)
       \<and> (cb_state cm \<noteq> new
           \<and> \<not> now' - cb_state_entered_at cm < min_state_duration (cb_cfg cm)
           \<and> (\<forall>fired. cb_last_transition_times cm (cb_state cm, new) = Some fired
                 \<longrightarrow> \<not> now' - fired < debounce_window (cb_cfg cm)) \<longrightarrow>
             machine (cb_do_transition new now' cm) = cb_commit new now' cm
           \<and> (\<forall>cb e. cb_on_transition cm = Some cb \<and> cb (cb_state cm) new = Some e \<longrightarrow>
                 raised (cb_do_transition new now' cm) = Some e
               \<and> logged (cb_do_transition new now' cm) = []))"
proof (intro conjI)
  show "machine (try_transition target now sm)
           = sm\<lparr>state := target, state_entered_at := now,
                last_transition_key := Some (state sm, target), last_transition_time := now\<rparr>"
    using try_transition_admitted(1) [OF assms] by (simp add: commit_def)
  show "\<forall>cb e. on_transition sm = Some cb \<and> cb (state sm) target = Some e \<and> is_Exception e \<longrightarrow>
             notified (try_transition target now sm) = [(state sm, target)]
           \<and> logged (try_transition target now sm) = [''on_transition callback failed'']
           \<and> raised (try_transition target now sm) = None"
    using assms by (auto simp: try_transition_def quiet_def Let_def)
  show "only_Exceptions (on_transition sm) \<longrightarrow>
             raised (handle_event event now sm) = None
           \<and> raised (set_network_error now sm) = None
           \<and> raised (clear_network_error now sm) = None
           \<and> raised (idle_watcher now sm) = None"
    by (simp add: entry_points_not_raised)
  show "cb_state cm \<noteq> new
           \<and> \<not> now' - cb_state_entered_at cm < min_state_duration (cb_cfg cm)
           \<and> (\<forall>fired. cb_last_transition_times cm (cb_state cm, new) = Some fired
                 \<longrightarrow> \<not> now' - fired < debounce_window (cb_cfg cm)) \<longrightarrow>
             machine (cb_do_transition new now' cm) = cb_commit new now' cm
           \<and> (\<forall>cb e. cb_on_transition cm = Some cb \<and> cb (cb_state cm) new = Some e \<longrightarrow>
                 raised (cb_do_transition new now' cm) = Some e
               \<and> logged (cb_do_transition new now' cm) = [])"
    by (auto simp: cb_do_transition_def quiet_def Let_def split: option.splits)
qed

text \<open>
  C4 as stated fails on \<^verbatim>\<open>clawbeam/state_machine.py\<close>: the observer's \<open>RuntimeError\<close>
  leaves \<open>handle_event\<close>, unlogged; the state stays committed.
\<close>

theorem cb_observer_exception_counterexample:
  "raised (cb_handle_event (ev EV_USER_INPUT None) 1 (cb_init_StateMachine zero_cfg (Some fails) 0))
     = Some RuntimeError
   \<and> logged (cb_handle_event (ev EV_USER_INPUT None) 1 (cb_init_StateMachine zero_cfg (Some fails) 0))
     = []
   \<and> cb_state (machine (cb_handle_event (ev EV_USER_INPUT None) 1 (cb_init_StateMachine zero_cfg (Some fails) 0)))
     = USER_INPUT"
  by (simp add: cb_init_StateMachine_def cb_handle_event_def cb_do_transition_def cb_commit_def
        quiet_def cb_mapping_def Let_def zero_cfg_def fails_def ev_def)

text \<open>C4, at the first transition of a machine whose observer raises \<open>RuntimeError\<close>.\<close>

theorem commit_before_observer_witness:
  "state (machine (try_transition USER_INPUT 1 (init_StateMachine zero_cfg (Some fails) 0))) = USER_INPUT
   \<and> raised (try_transition USER_INPUT 1 (init_StateMachine zero_cfg (Some fails) 0)) = None
   \<and> logged (try_transition USER_INPUT 1 (init_StateMachine zero_cfg (Some fails) 0))
       = [''on_transition callback failed'']
   \<and> raised (handle_event (ev EV_USER_INPUT None) 1 (init_StateMachine zero_cfg (Some fails) 0)) = None
   \<and> raised (cb_do_transition USER_INPUT 1 (cb_init_StateMachine zero_cfg (Some fails) 0))
       = Some RuntimeError"
proof -
  let ?sm = "init_StateMachine zero_cfg (Some fails) 0"
  let ?cm = "cb_init_StateMachine zero_cfg (Some fails) 0"
  have 1: "USER_INPUT \<noteq> state ?sm" by (simp add: init_StateMachine_def)
  have 2: "\<not> 1 - state_entered_at ?sm < min_state_duration (cfg ?sm)"
    by (simp add: init_StateMachine_def zero_cfg_def)
  have 3: "\<not> (Some (state ?sm, USER_INPUT) = last_transition_key ?sm
              \<and> 1 - last_transition_time ?sm < debounce_window (cfg ?sm))"
    by (simp add: init_StateMachine_def)
  have 4: "only_Exceptions (on_transition ?sm)"
    by (simp add: only_Exceptions_def init_StateMachine_def fails_def)
  have 5: "on_transition ?sm = Some fails \<and> fails (state ?sm) USER_INPUT = Some RuntimeError
      \<and> is_Exception RuntimeError"
    by (simp add: init_StateMachine_def fails_def)
  have 6: "cb_state ?cm \<noteq> USER_INPUT
           \<and> \<not> 1 - cb_state_entered_at ?cm < min_state_duration (cb_cfg ?cm)
           \<and> (\<forall>fired. cb_last_transition_times ?cm (cb_state ?cm, USER_INPUT) = Some fired
                 \<longrightarrow> \<not> 1 - fired < debounce_window (cb_cfg ?cm))"
    by (simp add: cb_init_StateMachine_def zero_cfg_def)
  have 7: "cb_on_transition ?cm = Some fails \<and> fails (cb_state ?cm) USER_INPUT = Some RuntimeError"
    by (simp add: cb_init_StateMachine_def fails_def)
  note h = commit_before_observer [OF 1 2 3, of "ev EV_USER_INPUT None" ?cm USER_INPUT 1]
  have a: "state (machine (try_transition USER_INPUT 1 ?sm)) = USER_INPUT"
    using h [THEN conjunct1] by simp
  note b = h [THEN conjunct2, THEN conjunct1, rule_format, OF 5]
  note c = h [THEN conjunct2, THEN conjunct2, THEN conjunct1, rule_format, OF 4, THEN conjunct1]
  note d = h [THEN conjunct2, THEN conjunct2, THEN conjunct2, rule_format, OF 6,
      THEN conjunct2, rule_format, OF 7, THEN conjunct1]
  from a b c d show ?thesis by blast
qed

text \<open>
  Debounce in \<^verbatim>\<open>clawbeam/state_machine.py\<close> is per pair: a commit records the firing
  instant of its pair and of no other pair; a request whose pair fired within the debounce window is
  rejected (same machine, no observer call); and once a pair \<open>(a, b)\<close> has fired at
  \<open>t0\<close>, no run of entry-point calls made within the window fires it again or moves its
  firing instant, whatever other transitions the run commits. The last part is about
  \<^verbatim>\<open>state_machine.py\<close>, which remembers one key: a request for another state whose
  pair is not the last key is committed once the minimum duration has passed, however
  recently its own pair fired.
\<close>

theorem cb_debounce_per_pair:
  "(cb_last_transition_times (cb_commit b t0 cm) (cb_state cm, b) = Some t0
     \<and> (\<forall>k. k \<noteq> (cb_state cm, b) \<longrightarrow>
           cb_last_transition_times (cb_commit b t0 cm) k = cb_last_transition_times cm k))
   \<and> (cb_last_transition_times cm (cb_state cm, b) = Some fired
       \<and> now - fired < debounce_window (cb_cfg cm) \<longrightarrow>
         cb_do_transition b now cm = quiet cm)
   \<and> (cb_last_transition_times cm (a, b) = Some t0
       \<and> (\<forall>(r, t) \<in> set rs. t - t0 < debounce_window (cb_cfg cm)) \<longrightarrow>
         (a, b) \<notin> set (snd (cb_run rs cm))
       \<and> cb_last_transition_times (fst (cb_run rs cm)) (a, b) = Some t0)
   \<and> (target \<noteq> state sm
       \<and> \<not> now - state_entered_at sm < min_state_duration (cfg sm)
       \<and> last_transition_key sm \<noteq> Some (state sm, target) \<longrightarrow>
         state (machine (try_transition target now sm)) = target)"
proof (intro conjI impI)
  show "cb_last_transition_times (cb_commit b t0 cm) (cb_state cm, b) = Some t0"
    by (simp add: cb_commit_def)
  show "\<forall>k. k \<noteq> (cb_state cm, b) \<longrightarrow>
           cb_last_transition_times (cb_commit b t0 cm) k = cb_last_transition_times cm k"
    by (simp add: cb_commit_def)
next
  assume "cb_last_transition_times cm (cb_state cm, b) = Some fired
       \<and> now - fired < debounce_window (cb_cfg cm)"
  then show "cb_do_transition b now cm = quiet cm"
    by (simp add: cb_do_transition_def Let_def)
next
  assume a: "cb_last_transition_times cm (a, b) = Some t0
       \<and> (\<forall>(r, t) \<in> set rs. t - t0 < debounce_window (cb_cfg cm))"
  then show "(a, b) \<notin> set (snd (cb_run rs cm))"
    using cb_run_keeps [of cm a b t0 rs] by blast
  from a show "cb_last_transition_times (fst (cb_run rs cm)) (a, b) = Some t0"
    using cb_run_keeps [of cm a b t0 rs] by blast
next
  assume a: "target \<noteq> state sm
       \<and> \<not> now - state_entered_at sm < min_state_duration (cfg sm)
       \<and> last_transition_key sm \<noteq> Some (state sm, target)"
  then have "machine (try_transition target now sm) = commit target now sm"
    by (intro try_transition_admitted(1)) auto
  then show "state (machine (try_transition target now sm)) = target"
    by (simp add: commit_def)
qed

lemma cb_after_first_eq:
  "cb_after_first =
     \<lparr>cb_cfg = debounce_cfg, cb_on_transition = Some returns, cb_state = NETWORK_ERROR,
      cb_state_entered_at = 0,
      cb_last_transition_times = [(IDLE, NETWORK_ERROR) \<mapsto> 0],
      cb_idle_task = Some (NETWORK_ERROR, 0)\<rparr>"
  by (simp add: cb_after_first_def cb_set_network_error_def cb_do_transition_def cb_commit_def
      cb_init_StateMachine_def debounce_cfg_def returns_def quiet_def Let_def)

text \<open>
  The same on \<^verbatim>\<open>clawbeam/state_machine.py\<close> at a run of five calls within five seconds
  of \<open>(IDLE, NETWORK_ERROR)\<close> firing: three other transitions are committed, the two
  repeated requests are rejected.
\<close>

theorem cb_debounce_per_pair_witness:
  "cb_run [(Clear_network_error, 1), (Set_network_error, 2), (Handle (ev EV_USER_INPUT None), 3),
           (Clear_network_error, 4), (Set_network_error, 4.5)] cb_after_first
   = (fst (cb_run [(Clear_network_error, 1), (Set_network_error, 2), (Handle (ev EV_USER_INPUT None), 3),
           (Clear_network_error, 4), (Set_network_error, 4.5)] cb_after_first),
      [(NETWORK_ERROR, IDLE), (IDLE, USER_INPUT), (USER_INPUT, IDLE)])
   \<and> (IDLE, NETWORK_ERROR) \<notin> set (snd (cb_run [(Clear_network_error, 1), (Set_network_error, 2),
           (Handle (ev EV_USER_INPUT None), 3), (Clear_network_error, 4), (Set_network_error, 4.5)]
           cb_after_first))"
proof -
  let ?rs = "[(Clear_network_error, 1), (Set_network_error, 2), (Handle (ev EV_USER_INPUT None), 3),
           (Clear_network_error, 4), (Set_network_error, 4.5::real)]"
  have h: "cb_last_transition_times cb_after_first (IDLE, NETWORK_ERROR) = Some 0
       \<and> (\<forall>(r, t) \<in> set ?rs. t - 0 < debounce_window (cb_cfg cb_after_first))"
    by (simp add: cb_after_first_eq debounce_cfg_def)
  have r: "snd (cb_run ?rs cb_after_first) = [(NETWORK_ERROR, IDLE), (IDLE, USER_INPUT), (USER_INPUT, IDLE)]"
    by (simp add: cb_after_first_eq cb_set_network_error_def cb_clear_network_error_def
        cb_handle_event_def cb_mapping_def cb_do_transition_def cb_commit_def
        debounce_cfg_def returns_def quiet_def ev_def Let_def)
  from cb_debounce_per_pair [of NETWORK_ERROR 0 cb_after_first 0 0 IDLE ?rs,
      THEN conjunct2, THEN conjunct2, THEN conjunct1, rule_format, OF h] r
  show ?thesis by (simp add: prod_eq_iff)
qed

text \<open>
  C7 fails on \<^verbatim>\<open>state_machine.py\<close>, which keeps one last key instead of an instant per
  pair: with a debounce window of five seconds, \<open>(IDLE, NETWORK_ERROR)\<close> fires at
  instant 0 and again at instant 2, after \<open>(NETWORK_ERROR, IDLE)\<close> fired at instant 1.
\<close>

theorem single_key_debounce_counterexample:
  "notified (set_network_error 0 (init_StateMachine debounce_cfg (Some returns) 0))
     = [(IDLE, NETWORK_ERROR)]
   \<and> notified (clear_network_error 1
        (machine (set_network_error 0 (init_StateMachine debounce_cfg (Some returns) 0))))
     = [(NETWORK_ERROR, IDLE)]
   \<and> notified (set_network_error 2
        (machine (clear_network_error 1
          (machine (set_network_error 0 (init_StateMachine debounce_cfg (Some returns) 0))))))
     = [(IDLE, NETWORK_ERROR)]
   \<and> (2::real) - 0 < debounce_window debounce_cfg"
  by (simp add: init_StateMachine_def set_network_error_def clear_network_error_def
      try_transition_def commit_def quiet_def debounce_cfg_def returns_def Let_def)

lemma try_transition_outcome:
  "machine (try_transition target now sm) = sm
   \<or> (machine (try_transition target now sm) = commit target now sm \<and> target \<noteq> state sm)"
  by (auto simp: try_transition_def quiet_def Let_def split: option.splits)

lemma try_transition_last_key:
  assumes "last_key_inv sm"
  shows "last_key_inv (machine (try_transition target now sm))"
proof -
  from try_transition_outcome [of target now sm] show ?thesis
  proof
    assume "machine (try_transition target now sm) = sm"
    with assms show ?thesis by simp
  next
    assume "machine (try_transition target now sm) = commit target now sm \<and> target \<noteq> state sm"
    then show ?thesis by (auto simp: last_key_inv_def commit_def)
  qed
qed

lemma handle_event_outcome:
  "handle_event event now sm = quiet (sm\<lparr>last_activity := now, idle_task := Some now\<rparr>)
   \<or> (\<exists>t. handle_event event now sm
          = try_transition t now (sm\<lparr>last_activity := now, idle_task := Some now\<rparr>))"
  by (cases "token_count event")
     (auto simp: handle_event_def restart_idle_timer_def Let_def split: option.splits)

lemma step_last_key:
  assumes "last_key_inv sm"
  shows "last_key_inv (machine (step r now sm))"
proof (cases r)
  case (Handle event)
  let ?s = "sm\<lparr>last_activity := now, idle_task := Some now\<rparr>"
  from assms have i: "last_key_inv ?s" by (simp add: last_key_inv_def)
  from handle_event_outcome [of event now sm] have "last_key_inv (machine (handle_event event now sm))"
  proof
    assume "handle_event event now sm = quiet ?s"
    with i show ?thesis by (simp add: quiet_def)
  next
    assume "\<exists>t. handle_event event now sm = try_transition t now ?s"
    then obtain t where "handle_event event now sm = try_transition t now ?s" ..
    with try_transition_last_key [OF i, of t now] show ?thesis by simp
  qed
  with Handle show ?thesis by simp
next
  case Set_network_error
  with try_transition_last_key [OF assms, of NETWORK_ERROR now] show ?thesis
    by (simp add: set_network_error_def)
next
  case Clear_network_error
  with try_transition_last_key [OF assms, of IDLE now] assms show ?thesis
    by (simp add: clear_network_error_def quiet_def)
next
  case (Idle_fired w)
  have "machine (idle_watcher now sm) = sm \<or> machine (idle_watcher now sm) = machine (try_transition IDLE now sm)"
    by (simp add: idle_watcher_def quiet_def Let_def)
  with try_transition_last_key [OF assms, of IDLE now] assms
  have "last_key_inv (machine (idle_watcher now sm))" by auto
  with Idle_fired show ?thesis by simp
qed

lemma run_last_key:
  assumes "last_key_inv sm"
  shows "last_key_inv (run rs sm)"
  using assms
proof (induction rs arbitrary: sm)
  case Nil
  then show ?case by simp
next
  case (Cons x rs)
  obtain r now where x: "x = (r, now)" by (cases x)
  from Cons.prems have "last_key_inv (machine (step r now sm))"
    by (rule step_last_key)
  then have "last_key_inv (run rs (machine (step r now sm)))"
    by (rule Cons.IH)
  then show ?case unfolding x by simp
qed

text \<open>
  In \<^verbatim>\<open>state_machine.py\<close> the debounce test never holds: in every machine reached from
  the initial one by calls of the entry points and wake-ups of the idle watcher, the key
  of a request differs from the last key, since the last key ends in the current state
  and starts elsewhere. The debounce window has no effect there.
\<close>

lemma debounce_guard_unreachable:
  "last_transition_key (run rs (init_StateMachine config cb t0))
     \<noteq> Some (state (run rs (init_StateMachine config cb t0)), target)"
proof -
  have "last_key_inv (init_StateMachine config cb t0)"
    by (simp add: last_key_inv_def init_StateMachine_def)
  then have "last_key_inv (run rs (init_StateMachine config cb t0))"
    by (rule run_last_key)
  then show ?thesis unfolding last_key_inv_def by blast
qed

lemma requests_append: "requests (xs @ ys) = requests xs + requests ys"
  by (induction xs rule: requests.induct) simp_all

lemma steps_append: "steps (xs @ ys) = steps xs @ steps ys"
  by (induction xs rule: steps.induct) simp_all

lemma rate_limit_quiet:
  "requests (waited w) = 0"
  "steps (waited w) = []"
  "BACKOFF_BASE (snd (rate_limit env c)) = BACKOFF_BASE c"
  "healthy (snd (rate_limit env c)) = healthy c"
  by (simp_all add: rate_limit_def waited_def Let_def split: option.splits)

lemma post_loop_ok:
  assumes "reply (env a) = Response 200"
  shows "post_loop (a # rest) env url payload c =
           \<lparr>returned = Inr True, client = (snd (rate_limit (env a) c))\<lparr>healthy := True\<rparr>,
            effects = waited (fst (rate_limit (env a) c)) @ [POST url payload]\<rparr>"
  using assms by (simp add: Let_def case_prod_beta)

lemma post_loop_failed:
  assumes "failed (reply (env a))"
  shows "post_loop (a # rest) env url payload c =
           (post_loop rest env url payload (snd (rate_limit (env a) c)))
             \<lparr>effects := waited (fst (rate_limit (env a) c)) @ [POST url payload]
                @ (if a < MAX_RETRIES then [Backoff (BACKOFF_BASE c * 2 ^ (a - 1))] else [])
                @ effects (post_loop rest env url payload (snd (rate_limit (env a) c)))\<rparr>"
  using assms
  by (auto simp: failed_def Let_def rate_limit_def split: prod.splits reply.splits)

lemma post_loop_requests:
  "requests (effects (post_loop as env url payload c)) \<le> length as"
proof (induction as arbitrary: c)
  case Nil
  then show ?case by simp
next
  case (Cons a as)
  have "requests (effects (post_loop as env url payload (snd (rate_limit (env a) c)))) \<le> length as"
    by (rule Cons.IH)
  then show ?case
    by (auto simp: Let_def requests_append rate_limit_quiet split: prod.splits reply.splits)
qed

declare post_loop.simps(2) [simp del]

lemma attempts: "[1 ..< MAX_RETRIES + 1] = [1, 2, 3]"
  by (simp add: MAX_RETRIES_def upt_rec)

text \<open>
  C5. \<open>apply_state\<close> sends at most three requests. When the first \<open>n - 1\<close> attempts fail
  and attempt \<open>n\<close> (of the three) is answered with status 200, it returns success with
  the client healthy after exactly \<open>n\<close> requests, and between request \<open>k\<close> and request
  \<open>k + 1\<close> it sleeps \<open>BACKOFF_BASE * 2 ^ (k - 1)\<close>. When all three attempts fail, it
  returns failure with the client unhealthy after three requests, having slept
  \<open>BACKOFF_BASE\<close> and \<open>2 * BACKOFF_BASE\<close> between them and not after the last.
\<close>

theorem apply_state_retries:
  "requests (effects (apply_state env payload c)) \<le> MAX_RETRIES
   \<and> (n \<in> {1 .. MAX_RETRIES} \<and> (\<forall>k \<in> {1 ..< n}. failed (reply (env k)))
        \<and> reply (env n) = Response 200 \<longrightarrow>
         returned (apply_state env payload c) = Inr True
       \<and> healthy (client (apply_state env payload c))
       \<and> requests (effects (apply_state env payload c)) = n
       \<and> steps (effects (apply_state env payload c))
           = concat (map (\<lambda>k. [POST (state_url c) payload, Backoff (BACKOFF_BASE c * 2 ^ (k - 1))])
                      [1 ..< n])
             @ [POST (state_url c) payload])
   \<and> ((\<forall>k \<in> {1 .. MAX_RETRIES}. failed (reply (env k))) \<longrightarrow>
         returned (apply_state env payload c) = Inr False
       \<and> \<not> healthy (client (apply_state env payload c))
       \<and> requests (effects (apply_state env payload c)) = MAX_RETRIES
       \<and> steps (effects (apply_state env payload c))
           = concat (map (\<lambda>k. [POST (state_url c) payload, Backoff (BACKOFF_BASE c * 2 ^ (k - 1))])
                      [1 ..< MAX_RETRIES])
             @ [POST (state_url c) payload])"
proof (intro conjI impI)
  show "requests (effects (apply_state env payload c)) \<le> MAX_RETRIES"
    using post_loop_requests [of "[1, 2, 3]" env "state_url c" payload c]
    unfolding apply_state_def post_def attempts by (simp add: MAX_RETRIES_def)
next
  assume h: "n \<in> {1 .. MAX_RETRIES} \<and> (\<forall>k \<in> {1 ..< n}. failed (reply (env k)))
        \<and> reply (env n) = Response 200"
  then have "1 \<le> n \<and> n \<le> 3"
    by (simp add: MAX_RETRIES_def)
  then have "n = 1 \<or> n = 2 \<or> n = 3"
    by arith
  then consider "n = 1" | "n = 2" | "n = 3"
    by blast
  then have "returned (apply_state env payload c) = Inr True
       \<and> healthy (client (apply_state env payload c))
       \<and> requests (effects (apply_state env payload c)) = n
       \<and> steps (effects (apply_state env payload c))
           = concat (map (\<lambda>k. [POST (state_url c) payload, Backoff (BACKOFF_BASE c * 2 ^ (k - 1))])
                      [1 ..< n])
             @ [POST (state_url c) payload]"
  proof cases
    case 1
    with h have "reply (env 1) = Response 200" by simp
    then show ?thesis
      unfolding apply_state_def post_def attempts
      by (simp add: 1 post_loop_ok requests_append steps_append rate_limit_quiet)
  next
    case 2
    with h have "failed (reply (env 1))" "reply (env 2) = Response 200" by simp_all
    then show ?thesis
      unfolding apply_state_def post_def attempts
      by (simp add: 2 post_loop_ok post_loop_failed requests_append steps_append rate_limit_quiet
          MAX_RETRIES_def upt_rec)
  next
    case 3
    with h have "failed (reply (env 1))" "failed (reply (env 2))" "reply (env 3) = Response 200"
      by simp_all
    then show ?thesis
      unfolding apply_state_def post_def attempts
      by (simp add: 3 post_loop_ok post_loop_failed requests_append steps_append rate_limit_quiet
          MAX_RETRIES_def upt_rec)
  qed
  then show "returned (apply_state env payload c) = Inr True"
    and "healthy (client (apply_state env payload c))"
    and "requests (effects (apply_state env payload c)) = n"
    and "steps (effects (apply_state env payload c))
           = concat (map (\<lambda>k. [POST (state_url c) payload, Backoff (BACKOFF_BASE c * 2 ^ (k - 1))])
                      [1 ..< n])
             @ [POST (state_url c) payload]"
    by simp_all
next
  assume h: "\<forall>k \<in> {1 .. MAX_RETRIES}. failed (reply (env k))"
  then have f: "failed (reply (env 1))" "failed (reply (env 2))" "failed (reply (env 3))"
    by (simp_all add: MAX_RETRIES_def)
  then have "returned (apply_state env payload c) = Inr False
       \<and> \<not> healthy (client (apply_state env payload c))
       \<and> requests (effects (apply_state env payload c)) = MAX_RETRIES
       \<and> steps (effects (apply_state env payload c))
           = concat (map (\<lambda>k. [POST (state_url c) payload, Backoff (BACKOFF_BASE c * 2 ^ (k - 1))])
                      [1 ..< MAX_RETRIES])
             @ [POST (state_url c) payload]"
    unfolding apply_state_def post_def attempts
    by (simp add: post_loop_failed requests_append steps_append rate_limit_quiet
        MAX_RETRIES_def upt_rec)
  then show "returned (apply_state env payload c) = Inr False"
    and "\<not> healthy (client (apply_state env payload c))"
    and "requests (effects (apply_state env payload c)) = MAX_RETRIES"
    and "steps (effects (apply_state env payload c))
           = concat (map (\<lambda>k. [POST (state_url c) payload, Backoff (BACKOFF_BASE c * 2 ^ (k - 1))])
                      [1 ..< MAX_RETRIES])
             @ [POST (state_url c) payload]"
    by simp_all
qed

text \<open>
  C5, at the transports of the test-suite: two transient failures and then status 200
  (success after exactly three requests), and ten failures (failure, unhealthy).
\<close>

theorem apply_state_retries_witness:
  "returned (apply_state (RecordingTransport 200 2) ''on'' test_client) = Inr True
   \<and> requests (effects (apply_state (RecordingTransport 200 2) ''on'' test_client)) = 3
   \<and> steps (effects (apply_state (RecordingTransport 200 2) ''on'' test_client))
       = [POST ''http://10.0.0.1:80/json/state'' ''on'', Backoff (1 / 100),
          POST ''http://10.0.0.1:80/json/state'' ''on'', Backoff (2 / 100),
          POST ''http://10.0.0.1:80/json/state'' ''on'']
   \<and> returned (apply_state (RecordingTransport 200 10) ''on'' test_client) = Inr False
   \<and> \<not> healthy (client (apply_state (RecordingTransport 200 10) ''on'' test_client))"
proof -
  have a: "3 \<in> {1 .. MAX_RETRIES}
      \<and> (\<forall>k \<in> {1 ..< 3}. failed (reply (RecordingTransport 200 2 k)))
      \<and> reply (RecordingTransport 200 2 3) = Response 200"
    by (simp add: MAX_RETRIES_def RecordingTransport_def failed_def)
  have b: "\<forall>k \<in> {1 .. MAX_RETRIES}. failed (reply (RecordingTransport 200 10 k))"
    by (simp add: MAX_RETRIES_def RecordingTransport_def failed_def)
  have u: "[Suc 0 ..< 3] = [Suc 0, 2]"
    by (simp add: upt_rec)
  note s = apply_state_retries [of "RecordingTransport 200 2" "''on''" test_client 3,
      THEN conjunct2, THEN conjunct1, rule_format, OF a]
  note f = apply_state_retries [of "RecordingTransport 200 10" "''on''" test_client 3,
      THEN conjunct2, THEN conjunct2, THEN mp, OF b]
  from s f show ?thesis
    by (simp add: u test_client_def)
qed

text \<open>
  C6, as amended. A response counts as a success exactly when its status code is 200:
  \<open>apply_state\<close> against a device that answers every attempt with status \<open>s\<close>
  returns success and leaves the client healthy if and only if \<open>s = 200\<close>, and so
  does \<open>ping\<close>.
\<close>

theorem success_is_status_200:
  fixes payload :: 'p
  shows
  "(failed (Response s) \<longleftrightarrow> s \<noteq> 200)
   \<and> ((\<forall>k \<in> {1 .. MAX_RETRIES}. reply (env k) = Response s) \<longrightarrow>
         returned (apply_state env payload c) = Inr (s = 200)
       \<and> healthy (client (apply_state env payload c)) = (s = 200))
   \<and> (reply e = Response s \<longrightarrow>
         returned (ping e c :: 'p call) = Inr (s = 200)
       \<and> healthy (client (ping e c :: 'p call)) = (s = 200))"
proof (intro conjI impI)
  show "failed (Response s) \<longleftrightarrow> s \<noteq> 200"
    by (simp add: failed_def)
next
  assume h: "\<forall>k \<in> {1 .. MAX_RETRIES}. reply (env k) = Response s"
  then have r: "reply (env 1) = Response s" "reply (env 2) = Response s" "reply (env 3) = Response s"
    by (simp_all add: MAX_RETRIES_def)
  have "returned (apply_state env payload c) = Inr (s = 200)
       \<and> healthy (client (apply_state env payload c)) = (s = 200)"
  proof (cases "s = 200")
    case True
    with r show ?thesis
      unfolding apply_state_def post_def attempts by (simp add: post_loop_ok)
  next
    case False
    with r have "failed (reply (env 1))" "failed (reply (env 2))" "failed (reply (env 3))"
      by (simp_all add: failed_def)
    with False show ?thesis
      unfolding apply_state_def post_def attempts by (simp add: post_loop_failed)
  qed
  then show "returned (apply_state env payload c) = Inr (s = 200)"
    and "healthy (client (apply_state env payload c)) = (s = 200)"
    by simp_all
next
  assume "reply e = Response s"
  then show "returned (ping e c :: 'p call) = Inr (s = 200)"
    and "healthy (client (ping e c :: 'p call)) = (s = 200)"
    by (simp_all add: ping_def Let_def case_prod_beta)
qed

text \<open>C6, at a device that answers 200 and at a device that answers 404.\<close>

theorem success_is_status_200_witness:
  "returned (apply_state (RecordingTransport 200 0) ''on'' test_client) = Inr True
   \<and> returned (apply_state (RecordingTransport 404 0) ''on'' test_client) = Inr False
   \<and> returned (ping (RecordingTransport 200 0 1) test_client :: string call) = Inr True"
proof -
  have a: "\<forall>k \<in> {1 .. MAX_RETRIES}. reply (RecordingTransport 200 0 k) = Response 200"
    by (simp add: RecordingTransport_def)
  have b: "\<forall>k \<in> {1 .. MAX_RETRIES}. reply (RecordingTransport 404 0 k) = Response 404"
    by (simp add: RecordingTransport_def)
  have c: "reply (RecordingTransport 200 0 1) = Response 200"
    by (simp add: RecordingTransport_def)
  from success_is_status_200 [of 200 "RecordingTransport 200 0" "''on''" test_client,
         THEN conjunct2, THEN conjunct1, THEN mp, OF a]
       success_is_status_200 [of 404 "RecordingTransport 404 0" "''on''" test_client,
         THEN conjunct2, THEN conjunct1, THEN mp, OF b]
       success_is_status_200 [where s = 200 and e = "RecordingTransport 200 0 1" and c = test_client
         and payload = "''on''", THEN conjunct2, THEN conjunct2, rule_format, OF c]
  show ?thesis by simp
qed

text \<open>
  C6 as stated fails: against a device that answers every request with the 2xx status
  204, \<open>apply_state\<close> makes three requests, returns failure and marks the client
  unhealthy, and \<open>ping\<close> returns failure.
\<close>

theorem status_204_counterexample:
  "(200::int) \<le> 204 \<and> (204::int) < 300
   \<and> returned (apply_state (RecordingTransport 204 0) ''on'' test_client) = Inr False
   \<and> \<not> healthy (client (apply_state (RecordingTransport 204 0) ''on'' test_client))
   \<and> requests (effects (apply_state (RecordingTransport 204 0) ''on'' test_client)) = 3
   \<and> returned (ping (RecordingTransport 204 0 1) test_client :: string call) = Inr False
   \<and> \<not> healthy (client (ping (RecordingTransport 204 0 1) test_client :: string call))"
  unfolding apply_state_def post_def attempts
  by (simp add: post_loop.simps(2) ping_def rate_limit_def
      waited_def RecordingTransport_def test_client_def MAX_RETRIES_def Let_def)

lemma and_then_Inr: "and_then r f = Inr y \<longleftrightarrow> (\<exists>v. r = Inr v \<and> f v = Inr y)"
  by (cases r) (simp_all add: and_then_def)


lemma length_hex_digits: "length (hex_digits k n) = k"
  by (induction k arbitrary: n) simp_all

lemma length_hex: "length (hex n) = 32"
  by (simp add: hex_def length_hex_digits)









lemma and_then_elim:
  assumes "and_then r f = Inr y"
  obtains v where "r = Inr v" and "f v = Inr y"
  using assms by (cases r) (simp_all add: and_then_def)

lemma parse_line_id:
  assumes "parse_line lib line = Inr (Some e)"
  shows "ev_id e = take 12 (hex (uuid4 lib))"
  using assms
  apply (simp add: parse_line_def Let_def split: if_splits sum.splits)
  apply (erule and_then_elim)+
  apply (simp only: case_prod_beta)
  apply (erule and_then_elim)+
  apply clarsimp
  done

lemma cb_parse_line_id:
  assumes "cb_parse_line lib line = Inr (Some e)"
  shows "\<exists>kvs. loads lib line = Inr (JObj kvs)
           \<and> cb_id e =
               (let i = (case map_of kvs ''id'' of None \<Rightarrow> JNull | Some v \<Rightarrow> v);
                    t = (case map_of kvs ''timestamp'' of None \<Rightarrow> JNull | Some v \<Rightarrow> v)
                in if truthy i then i else if truthy t then t else JNull)"
proof -
  from assms obtain obj where o: "loads lib line = Inr obj"
    by (auto simp: cb_parse_line_def Let_def split: if_splits sum.splits)
  from assms o obtain v where "get obj ''type'' JNull = Inr v"
    by (auto simp: cb_parse_line_def Let_def split: if_splits elim: and_then_elim)
  then obtain kvs where k: "obj = JObj kvs"
    by (cases obj) (simp_all add: get_def)
  have g: "get (JObj kvs) key d = Inr x \<longleftrightarrow> x = (case map_of kvs key of None \<Rightarrow> d | Some v \<Rightarrow> v)"
    for key d x by (auto simp: get_def)
  from assms o k have "cb_id e =
               (let i = (case map_of kvs ''id'' of None \<Rightarrow> JNull | Some v \<Rightarrow> v);
                    t = (case map_of kvs ''timestamp'' of None \<Rightarrow> JNull | Some v \<Rightarrow> v)
                in if truthy i then i else if truthy t then t else JNull)"
    apply (simp add: cb_parse_line_def Let_def split: if_splits)
    apply (erule and_then_elim)+
    apply (simp only: case_prod_beta)
    apply (erule and_then_elim)+
    apply (clarsimp simp: g py_or_def Let_def)
    done
  with o k show ?thesis by blast
qed

text \<open>
  C10, as amended. In \<^verbatim>\<open>parser.py\<close> every event that \<open>parse_line\<close> returns has as
  identifier the first twelve hexadecimal digits of a fresh \<^verbatim>\<open>uuid4\<close>, so twelve
  characters, whatever the record holds. In \<^verbatim>\<open>clawbeam/parser.py\<close> the identifier is
  the record's \<open>id\<close> field when that is truthy, else the record's \<open>timestamp\<close> field when
  that is truthy, else \<^verbatim>\<open>None\<close>.
\<close>

theorem event_identifier:
  "(parse_line lib line = Inr (Some e) \<longrightarrow>
      ev_id e = take 12 (hex (uuid4 lib)) \<and> length (ev_id e) = 12 \<and> ev_id e \<noteq> [])
   \<and> (cb_parse_line lib line = Inr (Some e') \<longrightarrow>
        (\<exists>kvs. loads lib line = Inr (JObj kvs)
           \<and> cb_id e' =
               (let i = (case map_of kvs ''id'' of None \<Rightarrow> JNull | Some v \<Rightarrow> v);
                    t = (case map_of kvs ''timestamp'' of None \<Rightarrow> JNull | Some v \<Rightarrow> v)
                in if truthy i then i else if truthy t then t else JNull)))"
proof (intro conjI impI)
  assume "parse_line lib line = Inr (Some e)"
  then have i: "ev_id e = take 12 (hex (uuid4 lib))"
    by (rule parse_line_id)
  then show "ev_id e = take 12 (hex (uuid4 lib))" .
  from i show "length (ev_id e) = 12" by (simp add: length_hex)
  then show "ev_id e \<noteq> []" by auto
next
  assume "cb_parse_line lib line = Inr (Some e')"
  then show "\<exists>kvs. loads lib line = Inr (JObj kvs)
           \<and> cb_id e' =
               (let i = (case map_of kvs ''id'' of None \<Rightarrow> JNull | Some v \<Rightarrow> v);
                    t = (case map_of kvs ''timestamp'' of None \<Rightarrow> JNull | Some v \<Rightarrow> v)
                in if truthy i then i else if truthy t then t else JNull)"
    by (rule cb_parse_line_id)
qed

lemma test_lines:
  "strip line_user = line_user" "strip line_user_id = line_user_id"
  "line_user \<noteq> []" "line_user_id \<noteq> []" "line_user_id \<noteq> line_user"
  by (simp_all add: strip_def line_user_def line_user_id_def quoted_def isspace_def)

lemma parse_line_user_id:
  "parse_line test_library line_user_id =
     Inr (Some \<lparr>ev_id = take 12 (hex 0), ev_event_type = EV_USER_INPUT, ev_severity = INFO,
                ev_timestamp = ''now'',
                ev_raw_payload = JObj [(''type'', JStr ''user''), (''id'', JStr ''abc'')],
                ev_token_count = JNull\<rparr>)"
  by (simp add: parse_line_def test_lines test_library_def and_then_def get_def lower_of_def
      lower_def lower_char_def py_or_def Let_def)

lemma cb_parse_line_user:
  "cb_parse_line test_library line_user =
     Inr (Some \<lparr>cb_id = JNull, cb_event_type = EV_USER_INPUT, cb_message = JObj [],
                cb_severity = cb_INFO, cb_token_count = None, cb_timestamp = ''now''\<rparr>)"
  by (simp add: cb_parse_line_def test_lines test_library_def and_then_def get_def map_type_def
      py_or_def Let_def)

lemma cb_parse_line_user_id:
  "cb_parse_line test_library line_user_id =
     Inr (Some \<lparr>cb_id = JStr ''abc'', cb_event_type = EV_USER_INPUT, cb_message = JObj [],
                cb_severity = cb_INFO, cb_token_count = None, cb_timestamp = ''now''\<rparr>)"
  by (simp add: cb_parse_line_def test_lines test_library_def and_then_def get_def map_type_def
      py_or_def Let_def)

lemma hex_zero: "take 12 (hex 0) = ''000000000000''"
  by code_simp

text \<open>C10, at a record of type \<open>user\<close> with the id \<open>abc\<close>.\<close>

theorem event_identifier_witness:
  "parse_line test_library line_user_id =
     Inr (Some \<lparr>ev_id = ''000000000000'', ev_event_type = EV_USER_INPUT, ev_severity = INFO,
                ev_timestamp = ''now'',
                ev_raw_payload = JObj [(''type'', JStr ''user''), (''id'', JStr ''abc'')],
                ev_token_count = JNull\<rparr>)
   \<and> length ''000000000000'' = 12
   \<and> cb_parse_line test_library line_user_id =
     Inr (Some \<lparr>cb_id = JStr ''abc'', cb_event_type = EV_USER_INPUT, cb_message = JObj [],
                cb_severity = cb_INFO, cb_token_count = None, cb_timestamp = ''now''\<rparr>)
   \<and> loads test_library line_user_id = Inr (JObj [(''type'', JStr ''user''), (''id'', JStr ''abc'')])"
proof -
  let ?e = "\<lparr>ev_id = take 12 (hex 0), ev_event_type = EV_USER_INPUT, ev_severity = INFO,
                ev_timestamp = ''now'',
                ev_raw_payload = JObj [(''type'', JStr ''user''), (''id'', JStr ''abc'')],
                ev_token_count = JNull\<rparr>"
  let ?c = "\<lparr>cb_id = JStr ''abc'', cb_event_type = EV_USER_INPUT, cb_message = JObj [],
                cb_severity = cb_INFO, cb_token_count = None, cb_timestamp = ''now''\<rparr>"
  note t = event_identifier [where lib = test_library and line = line_user_id and e = ?e
      and e' = ?c]
  from t [THEN conjunct1, THEN mp, OF parse_line_user_id]
  have 1: "length (ev_id ?e) = 12" by blast
  from t [THEN conjunct2, THEN mp, OF cb_parse_line_user_id]
  obtain kvs where 2: "loads test_library line_user_id = Inr (JObj kvs)" by blast
  have 3: "loads test_library line_user_id = Inr (JObj [(''type'', JStr ''user''), (''id'', JStr ''abc'')])"
    by (simp add: test_library_def test_lines)
  from 1 2 3 parse_line_user_id cb_parse_line_user_id show ?thesis
    by (simp add: hex_zero)
qed

text \<open>
  C10 as stated fails on both modules. In \<^verbatim>\<open>clawbeam/parser.py\<close> a record with neither
  \<open>id\<close> nor \<open>timestamp\<close> gives an event whose identifier is \<^verbatim>\<open>None\<close>: nothing is generated.
  In \<^verbatim>\<open>parser.py\<close> a record with the id \<open>abc\<close> gives an event whose identifier is the
  generated one, not \<open>abc\<close>.
\<close>

theorem event_identifier_counterexample:
  "cb_parse_line test_library line_user =
     Inr (Some \<lparr>cb_id = JNull, cb_event_type = EV_USER_INPUT, cb_message = JObj [],
                cb_severity = cb_INFO, cb_token_count = None, cb_timestamp = ''now''\<rparr>)
   \<and> parse_line test_library line_user_id =
     Inr (Some \<lparr>ev_id = ''000000000000'', ev_event_type = EV_USER_INPUT, ev_severity = INFO,
                ev_timestamp = ''now'',
                ev_raw_payload = JObj [(''type'', JStr ''user''), (''id'', JStr ''abc'')],
                ev_token_count = JNull\<rparr>)"
  by (simp add: cb_parse_line_user parse_line_user_id hex_zero)

declare drain.simps [simp del] cb_drain.simps [simp del]

lemma written_append: "written (xs @ ys) = written xs @ written ys"
  by (simp add: written_def)

lemma written_Cons: "written (x # xs) = x @ newline # written xs"
  by (simp add: written_def)

lemma written_Nil: "written [] = []"
  by (simp add: written_def)

lemma split_at_newline:
  assumes "newline \<in> set buf"
  shows "takeWhile (\<lambda>c. c \<noteq> newline) buf @ newline # tl (dropWhile (\<lambda>c. c \<noteq> newline) buf) = buf"
proof -
  let ?d = "dropWhile (\<lambda>c. c \<noteq> newline) buf"
  from assms have ne: "?d \<noteq> []" by simp
  then have "\<not> (hd ?d \<noteq> newline)" by (rule hd_dropWhile)
  with ne have "?d = newline # tl ?d" by (cases ?d) simp_all
  then have "takeWhile (\<lambda>c. c \<noteq> newline) buf @ newline # tl ?d = takeWhile (\<lambda>c. c \<noteq> newline) buf @ ?d"
    by simp
  then show ?thesis by simp
qed

lemma drain_spec:
  "written (fst (drain buf)) @ snd (drain buf) = buf
   \<and> newline \<notin> set (snd (drain buf))
   \<and> (\<forall>l \<in> set (fst (drain buf)). newline \<notin> set l)"
proof (induction buf rule: drain.induct)
  case (1 buf)
  show ?case
  proof (cases "newline \<in> set buf")
    case False
    then show ?thesis by (subst (1 2 3 4) drain.simps) (simp add: written_Nil)
  next
    case True
    let ?line = "takeWhile (\<lambda>c. c \<noteq> newline) buf"
    let ?rest = "tl (dropWhile (\<lambda>c. c \<noteq> newline) buf)"
    have d: "drain buf = (?line # fst (drain ?rest), snd (drain ?rest))"
      using True by (subst drain.simps) (simp add: Let_def case_prod_beta)
    have ih: "written (fst (drain ?rest)) @ snd (drain ?rest) = ?rest
       \<and> newline \<notin> set (snd (drain ?rest))
       \<and> (\<forall>l \<in> set (fst (drain ?rest)). newline \<notin> set l)"
      using "1.IH" [OF True refl refl] .
    have l: "newline \<notin> set ?line"
      by (auto dest: set_takeWhileD)
    from ih l split_at_newline [OF True] show ?thesis
      by (simp add: d written_Cons)
  qed
qed

lemma find_str_absent: "find_str xs c = -1 \<longleftrightarrow> c \<notin> set xs"
proof (induction xs)
  case Nil
  then show ?case by simp
next
  case (Cons x xs)
  have "find_str xs c \<ge> -1" for xs
    by (induction xs) (auto simp: Let_def)
  from this [of xs] Cons show ?case
    by (auto simp: Let_def)
qed

lemma find_str_index:
  "c \<in> set xs \<Longrightarrow> nat (find_str xs c) = length (takeWhile (\<lambda>x. x \<noteq> c) xs) \<and> find_str xs c \<ge> 0"
proof (induction xs)
  case Nil
  then show ?case by simp
next
  case (Cons x xs)
  show ?case
  proof (cases "x = c")
    case True
    then show ?thesis by simp
  next
    case False
    with Cons.prems have m: "c \<in> set xs" by simp
    then have "find_str xs c \<noteq> -1" by (simp add: find_str_absent)
    with Cons.IH [OF m] False show ?thesis
      by (simp add: Let_def nat_add_distrib)
  qed
qed

lemma cb_drain_eq: "cb_drain buf = drain buf"
proof (induction buf rule: drain.induct)
  case (1 buf)
  show ?case
  proof (cases "newline \<in> set buf")
    case False
    then show ?thesis
      by (subst cb_drain.simps, subst drain.simps) (simp add: find_str_absent)
  next
    case True
    let ?P = "\<lambda>c. c \<noteq> newline"
    let ?rest = "tl (dropWhile ?P buf)"
    from find_str_index [OF True] have i: "nat (find_str buf newline) = length (takeWhile ?P buf)"
      and n: "find_str buf newline \<noteq> -1" by simp_all
    have t: "take (nat (find_str buf newline)) buf = takeWhile ?P buf"
      unfolding i by (rule takeWhile_eq_take [symmetric])
    have "drop (nat (find_str buf newline) + 1) buf = tl (drop (length (takeWhile ?P buf)) buf)"
      unfolding i by (simp add: drop_Suc tl_drop)
    also have "\<dots> = ?rest"
      by (simp add: dropWhile_eq_drop [symmetric])
    finally have r: "drop (nat (find_str buf newline) + 1) buf = ?rest" .
    have "cb_drain ?rest = drain ?rest"
      using "1.IH" [OF True refl refl] .
    then show ?thesis
      using True n t r
      by (subst cb_drain.simps, subst drain.simps) (simp add: Let_def)
  qed
qed

text \<open>Both modules tail alike: the two inner loops compute the same lines.\<close>

lemma cb_tail_file_eq: "cb_tail_file content0 observed = tail_file content0 observed"
proof -
  have p: "cb_poll content t = poll content t" for content t
    by (auto simp: cb_poll_def poll_def cb_drain_eq Let_def split: prod.splits sum.splits)
  have "cb_tail_loop observed t = tail_loop observed t" for t
    by (induction observed arbitrary: t) (auto simp: p Let_def split: option.splits)
  then show ?thesis
    by (simp add: cb_tail_file_def tail_file_def)
qed

lemma append_only_last: "append_only c ds \<Longrightarrow> prefix c (last (c # ds))"
proof (induction ds arbitrary: c)
  case Nil
  then show ?case by simp
next
  case (Cons d ds)
  then have "prefix c d" and "prefix d (last (d # ds))" by simp_all
  then show ?case by (auto intro: prefix_order.trans)
qed

lemma drop_chain:
  assumes "prefix c d" and "prefix d e"
  shows "drop (length c) d @ drop (length d) e = drop (length c) e"
proof -
  from assms obtain s u where "d = c @ s" and "e = d @ u"
    by (auto simp: prefix_def)
  then show ?thesis by simp
qed

lemma written_unique:
  assumes "written xs @ b = written ys @ b'"
      and "\<forall>l \<in> set xs. newline \<notin> set l" and "\<forall>l \<in> set ys. newline \<notin> set l"
      and "newline \<notin> set b" and "newline \<notin> set b'"
  shows "xs = ys \<and> b = b'"
  using assms
proof (induction xs arbitrary: ys)
  case Nil
  show ?case
  proof (cases ys)
    case Nil
    with Nil.prems show ?thesis by (simp add: written_Nil)
  next
    case (Cons y ys')
    with Nil.prems have "b = y @ newline # written ys' @ b'"
      by (simp add: written_Nil written_Cons)
    with Nil.prems show ?thesis by auto
  qed
next
  case (Cons x xs)
  show ?case
  proof (cases ys)
    case Nil
    with Cons.prems have "b' = x @ newline # written xs @ b"
      by (simp add: written_Nil written_Cons)
    with Cons.prems show ?thesis by auto
  next
    case c: (Cons y ys')
    with Cons.prems have e: "x @ newline # (written xs @ b) = y @ newline # (written ys' @ b')"
      by (simp add: written_Cons)
    from Cons.prems c have nx: "newline \<notin> set x" and ny: "newline \<notin> set y"
      by simp_all
    have "takeWhile (\<lambda>c. c \<noteq> newline) (x @ newline # (written xs @ b)) = x"
      using nx by (auto simp: takeWhile_tail)
    moreover have "takeWhile (\<lambda>c. c \<noteq> newline) (y @ newline # (written ys' @ b')) = y"
      using ny by (auto simp: takeWhile_tail)
    ultimately have xy: "x = y" using e by simp
    with e have "written xs @ b = written ys' @ b'" by simp
    with Cons.IH [of ys'] Cons.prems c have "xs = ys' \<and> b = b'" by simp
    with xy c show ?thesis by simp
  qed
qed

lemma utf8_decode_plain: "plain bs \<Longrightarrow> utf8_decode bs = Some bs"
  by (induction bs) (simp_all add: plain_def)

lemma translate_newlines_plain: "13 \<notin> set xs \<Longrightarrow> translate_newlines xs = xs"
  by (induction xs rule: translate_newlines.induct) auto

lemma read_chunk_plain:
  assumes "plain (drop (pos t) content)"
  shows "read_chunk content t
           = (Inr (drop (pos t) content), t\<lparr>pos := pos t + length (drop (pos t) content)\<rparr>)"
proof -
  from assms have "13 \<notin> set (drop (pos t) content)" by (auto simp: plain_def)
  with assms show ?thesis
    by (simp add: read_chunk_def Let_def utf8_decode_plain translate_newlines_plain)
qed

lemma poll_spec:
  assumes "prefix c d" and "pos t = length c" and "newline \<notin> set (buffer t)" and "plain d"
  shows "written (yielded (poll d t)) @ buffer (handle (poll d t)) = buffer t @ drop (length c) d
       \<and> pos (handle (poll d t)) = length d
       \<and> newline \<notin> set (buffer (handle (poll d t)))
       \<and> (\<forall>l \<in> set (yielded (poll d t)). newline \<notin> set l)
       \<and> died (poll d t) = None"
proof -
  from assms(1) have len: "length c + length (drop (length c) d) = length d"
    by (auto simp: prefix_def)
  from assms(4) have "plain (drop (pos t) d)"
    by (auto simp: plain_def dest: in_set_dropD)
  then have r: "read_chunk d t
      = (Inr (drop (length c) d), t\<lparr>pos := length c + length (drop (length c) d)\<rparr>)"
    using assms(2) by (simp add: read_chunk_plain)
  show ?thesis
  proof (cases "drop (length c) d = []")
    case True
    with assms len show ?thesis
      by (simp add: poll_def r written_Nil)
  next
    case False
    with assms len drain_spec [of "buffer t @ drop (length c) d"] show ?thesis
      by (simp add: poll_def r Let_def case_prod_beta)
  qed
qed

lemma tail_loop_spec:
  assumes "append_only c (map snd observed)" and "\<forall>ob \<in> set observed. \<not> fst ob"
      and "pos t = length c" and "newline \<notin> set (buffer t)"
      and "plain (last (c # map snd observed))"
  shows "written (yielded (tail_loop observed t)) @ buffer (handle (tail_loop observed t))
           = buffer t @ drop (length c) (last (c # map snd observed))
       \<and> newline \<notin> set (buffer (handle (tail_loop observed t)))
       \<and> (\<forall>l \<in> set (yielded (tail_loop observed t)). newline \<notin> set l)
       \<and> died (tail_loop observed t) = None"
  using assms
proof (induction observed arbitrary: c t)
  case Nil
  then show ?case by (simp add: written_Nil)
next
  case (Cons ob observed)
  obtain s d where ob: "ob = (s, d)" by (cases ob)
  with Cons.prems have s: "\<not> s" and cd: "prefix c d" and ao: "append_only d (map snd observed)"
    and ns: "\<forall>ob \<in> set observed. \<not> fst ob"
    by simp_all
  let ?e = "last (d # map snd observed)"
  have de: "prefix d ?e" using ao by (rule append_only_last)
  have le: "last (c # map snd (ob # observed)) = ?e" by (simp add: ob)
  from Cons.prems(5) have pe: "plain ?e" unfolding le .
  from de pe have pd: "plain d"
    by (auto simp: plain_def prefix_def)
  let ?p = "poll d t"
  note p = poll_spec [OF cd Cons.prems(3) Cons.prems(4) pd]
  from p have p2: "pos (handle ?p) = length d" and p3: "newline \<notin> set (buffer (handle ?p))"
    and p5: "died ?p = None"
    by simp_all
  note ih = Cons.IH [OF ao ns p2 p3 pe]
  let ?r = "tail_loop observed (handle ?p)"
  have t: "tail_loop (ob # observed) t = ?r\<lparr>yielded := yielded ?p @ yielded ?r\<rparr>"
    using s p5 by (simp add: ob Let_def)
  have "written (yielded ?p @ yielded ?r) @ buffer (handle ?r)
      = written (yielded ?p) @ buffer (handle ?p) @ drop (length d) ?e"
    using ih by (simp add: written_append)
  also have "\<dots> = buffer t @ drop (length c) d @ drop (length d) ?e"
    using p by simp
  also have "\<dots> = buffer t @ drop (length c) ?e"
    using drop_chain [OF cd de] by simp
  finally have "written (yielded ?p @ yielded ?r) @ buffer (handle ?r)
      = buffer t @ drop (length c) ?e" .
  with ih p show ?case
    unfolding t le by auto
qed

lemma tail_loop_stop:
  "\<forall>ob \<in> set observed. \<not> fst ob \<Longrightarrow>
   yielded (tail_loop (observed @ (True, c) # later) t) = yielded (tail_loop observed t)"
  by (induction observed arbitrary: t) (auto simp: Let_def split: option.splits)

text \<open>
  On plain content \<open>tail_file\<close> yields exactly the appended lines. Over any iterations during
  which the file only grows and the stop event is not set, if the bytes appended since
  the start are the lines \<open>ls\<close>, each followed by a newline, and then a part \<open>partial\<close>
  with no newline, the lines yielded are exactly \<open>ls\<close>, in order and without their
  newlines, \<open>partial\<close> is kept in the buffer and no read raises; the content before the
  start is not yielded. Once an iteration finds the stop event set, nothing more is
  yielded.
\<close>

lemma tail_file_plain_lines:
  assumes "append_only content0 (map snd observed)"
      and "\<forall>ob \<in> set observed. \<not> fst ob"
      and "plain (last (content0 # map snd observed))"
      and "drop (length content0) (last (content0 # map snd observed)) = written ls @ partial"
      and "\<forall>l \<in> set ls. newline \<notin> set l"
      and "newline \<notin> set partial"
  shows "yielded (tail_file content0 observed) = ls
       \<and> buffer (handle (tail_file content0 observed)) = partial
       \<and> died (tail_file content0 observed) = None
       \<and> yielded (tail_file content0 (observed @ (True, c) # later)) = ls"
proof -
  let ?r = "tail_loop observed (seek_end content0)"
  have "written (yielded ?r) @ buffer (handle ?r)
           = buffer (seek_end content0) @ drop (length content0) (last (content0 # map snd observed))
       \<and> newline \<notin> set (buffer (handle ?r))
       \<and> (\<forall>l \<in> set (yielded ?r). newline \<notin> set l)
       \<and> died ?r = None"
    using assms(1,2,3) by (intro tail_loop_spec) (simp_all add: seek_end_def)
  then have "written (yielded ?r) @ buffer (handle ?r) = written ls @ partial"
    and "newline \<notin> set (buffer (handle ?r))" and "\<forall>l \<in> set (yielded ?r). newline \<notin> set l"
    and d: "died ?r = None"
    using assms(4) by (simp_all add: seek_end_def)
  then have "yielded ?r = ls \<and> buffer (handle ?r) = partial"
    using assms(5,6) by (intro written_unique)
  with d show ?thesis
    using assms(2) by (simp add: tail_file_def tail_loop_stop)
qed

text \<open>
  C9 fails on both modules when a write ends inside a character. The tail starts on an
  empty file. The line \<open>e-acute, newline\<close> is the bytes 195, 169, 10. A first write of
  the byte 195 alone is read before the rest arrives: \<^verbatim>\<open>fh.read()\<close> raises
  \<open>UnicodeDecodeError\<close>, the generator ends and the line is never yielded. Written in
  one piece, the same line is yielded. And when the carriage return of \<open>a, CR, LF\<close> is
  read before its line feed, an empty line is yielded between \<open>a\<close> and \<open>b\<close> that was never
  appended.
\<close>

theorem tail_file_split_write:
  "tail_file [] [(False, []), (False, [195]), (False, [195, 169, 10])]
     = \<lparr>yielded = [], handle = \<lparr>pos = 1, buffer = []\<rparr>, died = Some UnicodeDecodeError\<rparr>
   \<and> cb_tail_file [] [(False, []), (False, [195]), (False, [195, 169, 10])]
     = \<lparr>yielded = [], handle = \<lparr>pos = 1, buffer = []\<rparr>, died = Some UnicodeDecodeError\<rparr>
   \<and> tail_file [] [(False, []), (False, [195, 169, 10])]
     = \<lparr>yielded = [[233]], handle = \<lparr>pos = 3, buffer = []\<rparr>, died = None\<rparr>
   \<and> yielded (tail_file [] [(False, [97, 13]), (False, [97, 13, 10, 98, 10])]) = [[97], [], [98]]
   \<and> yielded (tail_file [] [(False, [97, 13, 10, 98, 10])]) = [[97], [98]]"
  by (simp add: tail_file_def cb_tail_file_eq seek_end_def poll_def read_chunk_def
      continuation_def second_of_three_def second_of_four_def drain.simps Let_def)

end
